theory Spec2Isabelle
  imports Complex_Main "HOL-Library.AList"
begin

section \<open>Python strings, slices and dictionaries\<close>

text \<open>
  The orchestration code of \<^verbatim>\<open>Pipeline.py\<close> uses four string operations of Python:
  the substring test \<^verbatim>\<open>sub in s\<close>, \<^verbatim>\<open>s.find(sub, start)\<close>, \<^verbatim>\<open>s.rfind(sub)\<close> and the
  slice \<^verbatim>\<open>s[a:b]\<close>. Indices are Python integers: \<^verbatim>\<open>find\<close> and \<^verbatim>\<open>rfind\<close> answer \<open>-1\<close>
  when there is no occurrence, and a negative slice bound counts from the end.
\<close>

definition starts_with :: "'a list \<Rightarrow> 'a list \<Rightarrow> bool" where
  "starts_with sub s = (take (length sub) s = sub)"

fun py_in :: "'a list \<Rightarrow> 'a list \<Rightarrow> bool" where
  "py_in sub [] = (sub = [])"
| "py_in sub (c # cs) = (starts_with sub (c # cs) \<or> py_in sub cs)"

text \<open>\<open>find_from sub s i\<close>: \<open>s\<close> is the part of the string that starts at offset \<open>i\<close>.\<close>

fun find_from :: "'a list \<Rightarrow> 'a list \<Rightarrow> nat \<Rightarrow> int" where
  "find_from sub [] i = (if sub = [] then int i else - 1)"
| "find_from sub (c # cs) i =
     (if starts_with sub (c # cs) then int i else find_from sub cs (Suc i))"

fun rfind_from :: "'a list \<Rightarrow> 'a list \<Rightarrow> nat \<Rightarrow> int" where
  "rfind_from sub [] i = (if sub = [] then int i else - 1)"
| "rfind_from sub (c # cs) i =
     (let r = rfind_from sub cs (Suc i)
      in if r \<noteq> - 1 then r else if starts_with sub (c # cs) then int i else - 1)"

text \<open>A slice bound is normalised as Python does: add the length when negative, then clamp.\<close>

definition slice_bound :: "nat \<Rightarrow> int \<Rightarrow> nat" where
  "slice_bound n i = (if i < 0 then nat (max 0 (int n + i)) else min n (nat i))"

definition py_slice :: "'a list \<Rightarrow> int \<Rightarrow> int \<Rightarrow> 'a list" where
  "py_slice s a b =
     (let lo = slice_bound (length s) a; hi = slice_bound (length s) b
      in take (hi - lo) (drop lo s))"

definition py_find :: "'a list \<Rightarrow> 'a list \<Rightarrow> int \<Rightarrow> int" where
  "py_find sub s start =
     (let lo = (if start < 0 then nat (max 0 (int (length s) + start)) else nat start)
      in if lo > length s then - 1 else find_from sub (drop lo s) lo)"

definition py_rfind :: "'a list \<Rightarrow> 'a list \<Rightarrow> int" where
  "py_rfind sub s = rfind_from sub s 0"

text \<open>
  A Python \<^verbatim>\<open>dict\<close> is an association list with distinct keys, in insertion order.
  \<^verbatim>\<open>d[k] = v\<close> is \<^const>\<open>AList.update\<close> (replace in place, or append), and
  \<^verbatim>\<open>d.update(e)\<close> stores the entries of \<open>e\<close> one after the other.
\<close>

definition dict_update :: "('k \<times> 'v) list \<Rightarrow> ('k \<times> 'v) list \<Rightarrow> ('k \<times> 'v) list" where
  "dict_update d e = fold (\<lambda>(k, v). AList.update k v) e d"

section \<open>Values, steps and the pipeline object\<close>

text \<open>
  Python is dynamically typed: an option value is a string, a number, a list or
  \<^verbatim>\<open>None\<close>, and the code tests the type at run time (\<^verbatim>\<open>type(v) == str\<close>,
  \<^verbatim>\<open>type(v) == list\<close>).
\<close>

datatype pyval = VNone | VStr string | VNum rat | VList "pyval list"

datatype py_exc = KeyError | IndexError | TypeError | AttributeError | AssertionError

datatype 'a py = Raise py_exc | Return 'a

type_synonym options = "(string \<times> pyval) list"
type_synonym image = "rat list list"
type_synonym results = "(string \<times> pyval) list"
type_synonym timing = "(string \<times> rat) list"

text \<open>
  A step is any callable registered under a name. What a call gives back is only known
  when it returns: it raises, or it returns a string, or a pair \<^verbatim>\<open>(image, dict)\<close>, or
  something else (\<^verbatim>\<open>None\<close>, a number, ...). The second component of a call's result is
  the wall-clock time the call took, which the engine reads as
  \<^verbatim>\<open>time() - step_start\<close>. Steps are taken to be functions of their three arguments:
  they answer through their return value and do not write into the dictionaries
  they are handed.
\<close>

datatype retval = Raises | RetStr string | RetPair image results | RetOther

type_synonym step_fn = "image \<Rightarrow> results \<Rightarrow> options \<Rightarrow> retval \<times> rat"

record pipeline =
  pipeline_methods :: "string \<rightharpoonup> step_fn"
  pipeline_steps :: "(string \<times> string list) list"

text \<open>The sequence that \<^verbatim>\<open>__init__\<close> installs under \<^verbatim>\<open>'head'\<close>.\<close>

definition default_steps :: "(string \<times> string list) list" where
  "default_steps =
     [(''head'', [''background'', ''psf'', ''center'', ''isophoteinit'',
                  ''isophotefit'', ''isophoteextract'', ''checkfit'', ''writeprof''])]"

text \<open>
  The argument \<^verbatim>\<open>new_pipeline_steps\<close> of \<^verbatim>\<open>UpdatePipeline\<close>: absent (\<^verbatim>\<open>None\<close>), a list,
  a dictionary, or a value of another type.
\<close>

datatype steps_arg =
  StepsNone | StepsList "string list" | StepsDict "(string \<times> string list) list" | StepsOther

text \<open>
  \<^verbatim>\<open>UpdatePipeline\<close> mutates the object and may raise from its \<^verbatim>\<open>assert\<close>; the model
  returns the exception, if any, together with the object as the call leaves it.
  An empty dictionary and an empty list are false in Python, so the guards
  \<^verbatim>\<open>if new_pipeline_methods:\<close> and \<^verbatim>\<open>if new_pipeline_steps:\<close> skip them.
\<close>

definition UpdatePipeline ::
  "(string \<times> step_fn) list option \<Rightarrow> steps_arg \<Rightarrow> pipeline \<Rightarrow> py_exc option \<times> pipeline" where
  "UpdatePipeline new_pipeline_methods new_pipeline_steps self =
     (let self1 =
        (case new_pipeline_methods of
           None \<Rightarrow> self
         | Some m \<Rightarrow>
             if m = [] then self
             else self\<lparr>pipeline_methods := pipeline_methods self ++ map_of m\<rparr>)
      in case new_pipeline_steps of
           StepsNone \<Rightarrow> (None, self1)
         | StepsOther \<Rightarrow> (None, self1)
         | StepsList l \<Rightarrow>
             if l = [] then (None, self1)
             else (None, self1\<lparr>pipeline_steps :=
                                 AList.update ''head'' l (pipeline_steps self1)\<rparr>)
         | StepsDict d \<Rightarrow>
             if d = [] then (None, self1)
             else if ''head'' \<in> set (map fst d) then (None, self1\<lparr>pipeline_steps := d\<rparr>)
             else (Some AssertionError, self1))"

text \<open>
  The configuration module that \<^verbatim>\<open>Process_ConfigFile\<close> imports: \<^verbatim>\<open>process_mode\<close>, and the
  optional attributes \<^verbatim>\<open>new_pipeline_methods\<close> and \<^verbatim>\<open>new_pipeline_steps\<close> (\<open>None\<close> when
  the module does not define them: the attribute access raises and the
  \<^verbatim>\<open>try ... except: pass\<close> around it swallows that, as it swallows a failed assertion).
\<close>

record config =
  process_mode :: string
  new_pipeline_methods :: "(string \<times> step_fn) list option"
  new_pipeline_steps :: "steps_arg option"

definition forced_steps :: "string list" where
  "forced_steps = [''background'', ''psf'', ''center forced'', ''isophoteinit'',
                   ''isophotefit forced'', ''isophoteextract forced'', ''writeprof'']"

text \<open>Lines 250 to 261 of \<^verbatim>\<open>Process_ConfigFile\<close>: the pipeline as configured by the module.\<close>

definition configure :: "config \<Rightarrow> pipeline \<Rightarrow> pipeline" where
  "configure c self =
     (let self1 = (if py_in ''forced'' (process_mode c)
                   then snd (UpdatePipeline None (StepsList forced_steps) self)
                   else self);
          self2 = (case new_pipeline_methods c of
                     None \<Rightarrow> self1
                   | Some m \<Rightarrow> snd (UpdatePipeline (Some m) StepsNone self1));
          self3 = (case new_pipeline_steps c of
                     None \<Rightarrow> self2
                   | Some s \<Rightarrow> snd (UpdatePipeline None s self2))
      in self3)"

text \<open>
  The derivation of the job name in \<^verbatim>\<open>Process_Image\<close> (lines 117 and 118), and the
  one \<^verbatim>\<open>Process_ConfigFile\<close> applies to the path of the configuration file
  (lines 234 to 241).
\<close>

definition derive_name :: "string \<Rightarrow> string" where
  "derive_name image_file =
     (let startat = (if py_in ''/'' image_file then py_rfind ''/'' image_file else 0)
      in py_slice image_file startat (py_find ''.'' image_file startat))"

definition derive_config_name :: "string \<Rightarrow> string" where
  "derive_config_name config_file =
     (let startat = (if py_in ''/'' config_file then py_rfind ''/'' config_file + 1 else 0)
      in if py_in ''.'' config_file
         then py_slice config_file startat (py_find ''.'' config_file startat)
         else drop (nat startat) config_file)"

section \<open>The engine: one image\<close>

text \<open>
  \<^verbatim>\<open>Read_Image\<close> is imported from another module; the engine sees it raise, return
  \<^verbatim>\<open>None\<close>, or return a two-dimensional array (rows of pixels, all of one width).
\<close>

datatype read_result = ReadRaises | ReadNone | ReadArray image

text \<open>
  Lines 116 to 118: the name given in the options is kept when it is a string; otherwise
  it is derived from \<^verbatim>\<open>options['image_file']\<close> and stored. A missing \<^verbatim>\<open>'image_file'\<close>
  raises \<^verbatim>\<open>KeyError\<close>; a value that is no string has no \<^verbatim>\<open>find\<close>. Neither is caught.
\<close>

definition resolve_name :: "options \<Rightarrow> options py" where
  "resolve_name options =
     (case map_of options ''name'' of
        Some (VStr n) \<Rightarrow> Return options
      | _ \<Rightarrow>
          (case map_of options ''image_file'' of
             None \<Rightarrow> Raise KeyError
           | Some (VStr f) \<Rightarrow> Return (AList.update ''name'' (VStr (derive_name f)) options)
           | Some (VList l) \<Rightarrow> Raise AttributeError
           | Some other \<Rightarrow> Raise TypeError))"

text \<open>
  Line 128, the second disjunct:
  \<^verbatim>\<open>np.all(dat[int(len(dat)/2.)-10:int(len(dat)/2.)+10, int(len(dat[0])/2.)-10:int(len(dat[0])/2.)+10] == 0)\<close>.
  \<^verbatim>\<open>dat[0]\<close> raises \<^verbatim>\<open>IndexError\<close> on an array with no rows, outside every \<^verbatim>\<open>try\<close>.
\<close>

definition center_window :: "image \<Rightarrow> image" where
  "center_window dat =
     (let h = int (length dat); w = int (length (hd dat))
      in map (\<lambda>row. py_slice row (w div 2 - 10) (w div 2 + 10))
             (py_slice dat (h div 2 - 10) (h div 2 + 10)))"

definition chunk_missing :: "image \<Rightarrow> bool py" where
  "chunk_missing dat =
     (if dat = [] then Raise IndexError
      else Return (\<forall>row \<in> set (center_window dat). \<forall>x \<in> set row. x = 0))"

text \<open>
  The state of the \<^verbatim>\<open>while\<close> loop: the local variables \<^verbatim>\<open>key\<close>, \<^verbatim>\<open>step\<close>, \<^verbatim>\<open>dat\<close>,
  \<^verbatim>\<open>results\<close> and \<^verbatim>\<open>timers\<close>. The field \<open>calls\<close> is not a variable of the program: it
  records, in order, every step function the loop has invoked, so that statements
  about "the steps executed" have something to talk about.
\<close>

datatype call = RegularCall string | BranchCall string

record engine =
  key :: string
  step :: nat
  dat :: image
  results :: results
  timers :: timing
  calls :: "call list"

definition init_engine :: "image \<Rightarrow> engine" where
  "init_engine d =
     \<lparr>key = ''head'', step = 0, dat = d, results = [], timers = [], calls = []\<rparr>"

text \<open>
  One pass through the body of the loop (lines 142 to 161), at a position
  \<open>step e < length seq\<close> of the current sequence \<open>seq\<close>. \<open>Fault\<close> is the \<^verbatim>\<open>except\<close> branch,
  which returns 1: a name that is not registered (\<^verbatim>\<open>KeyError\<close>), a call that raises, a
  return value that does not unpack into a pair with a dictionary.
\<close>

datatype tick_result = Fault engine | Next engine

definition tick :: "pipeline \<Rightarrow> options \<Rightarrow> string list \<Rightarrow> engine \<Rightarrow> tick_result" where
  "tick self options seq e =
     (let name = seq ! step e in
      if py_in ''branch'' name then
        (case pipeline_methods self name of
           None \<Rightarrow> Fault e
         | Some f \<Rightarrow>
             (let e1 = e\<lparr>calls := calls e @ [BranchCall name]\<rparr>
              in case fst (f (dat e) (results e) options) of
                   Raises \<Rightarrow> Fault e1
                 | RetStr decision \<Rightarrow> Next (e1\<lparr>key := decision, step := 0\<rparr>)
                 | _ \<Rightarrow> Next (e1\<lparr>step := step e + 1\<rparr>)))
      else
        (case pipeline_methods self name of
           None \<Rightarrow> Fault e
         | Some f \<Rightarrow>
             (let e1 = e\<lparr>calls := calls e @ [RegularCall name]\<rparr>
              in case f (dat e) (results e) options of
                   (RetPair dat' res, elapsed) \<Rightarrow>
                     Next (e1\<lparr>dat := dat',
                               results := dict_update (results e) res,
                               timers := AList.update name elapsed (timers e),
                               step := step e + 1\<rparr>)
                 | _ \<Rightarrow> Fault e1)))"

text \<open>The names of the Regular and of the Branch invocations among the calls made.\<close>

fun regular_calls :: "call list \<Rightarrow> string list" where
  "regular_calls [] = []"
| "regular_calls (RegularCall n # cs) = n # regular_calls cs"
| "regular_calls (BranchCall n # cs) = regular_calls cs"

fun branch_calls :: "call list \<Rightarrow> string list" where
  "branch_calls [] = []"
| "branch_calls (RegularCall n # cs) = branch_calls cs"
| "branch_calls (BranchCall n # cs) = n # branch_calls cs"

text \<open>
  The invariant of the loop that relates the timers to the calls: the keys of the
  timers are the names invoked as Regular steps, each once, and a name is invoked as a
  Branch step exactly when \<^verbatim>\<open>'branch'\<close> occurs in it.
\<close>

definition timers_match_calls :: "engine \<Rightarrow> bool" where
  "timers_match_calls e =
     (set (map fst (timers e)) = set (regular_calls (calls e))
      \<and> distinct (map fst (timers e))
      \<and> (\<forall>n \<in> set (regular_calls (calls e)). \<not> py_in ''branch'' n)
      \<and> (\<forall>n \<in> set (branch_calls (calls e)). py_in ''branch'' n))"

text \<open>
  What \<^verbatim>\<open>Process_Image\<close> gives to its caller: the sentinel 1, or the timers.
\<close>

datatype outcome = Failure | Success timing

text \<open>
  The loop. Its guard \<^verbatim>\<open>step < len(self.pipeline_steps[key])\<close> is evaluated outside
  the \<^verbatim>\<open>try\<close>, so a \<open>key\<close> that names no sequence raises \<^verbatim>\<open>KeyError\<close> to the caller.
  Branches can send the loop round for ever, hence the result is optional: \<open>None\<close> is
  "does not return". The engine state at the exit is returned with the result.
\<close>

partial_function (option) run ::
  "pipeline \<Rightarrow> options \<Rightarrow> engine \<Rightarrow> (outcome py \<times> engine) option" where
  "run self options e =
     (case map_of (pipeline_steps self) (key e) of
        None \<Rightarrow> Some (Raise KeyError, e)
      | Some seq \<Rightarrow>
          if step e < length seq then
            (case tick self options seq e of
               Fault e' \<Rightarrow> Some (Return Failure, e')
             | Next e' \<Rightarrow> run self options e')
          else Some (Return (Success (timers e)), e))"

declare run.simps [code]

text \<open>
  The engine after \<open>n\<close> passes through the body of the loop, when there are that many
  and none of them ends the run.
\<close>

fun after_ticks :: "pipeline \<Rightarrow> options \<Rightarrow> nat \<Rightarrow> engine \<Rightarrow> engine option" where
  "after_ticks self options 0 e = Some e"
| "after_ticks self options (Suc n) e =
     (case map_of (pipeline_steps self) (key e) of
        None \<Rightarrow> None
      | Some seq \<Rightarrow>
          if step e < length seq then
            (case tick self options seq e of
               Fault e' \<Rightarrow> None
             | Next e' \<Rightarrow> after_ticks self options n e')
          else None)"

text \<open>
  \<^verbatim>\<open>Process_Image\<close>. The seeding of the random generator (lines 109 to 113) touches
  nothing the function reads afterwards and cannot raise out of its
  \<^verbatim>\<open>try ... except: pass\<close>. The second component of the result is the engine state at
  the exit, \<open>None\<close> when the function leaves before the loop variables exist.
  When \<^verbatim>\<open>options['image_file']\<close> is missing although a name was given, the \<^verbatim>\<open>except\<close>
  branch at line 124 reads it again and raises.
\<close>

definition Process_Image_run ::
  "pipeline \<Rightarrow> (pyval \<Rightarrow> options \<Rightarrow> read_result) \<Rightarrow> options
     \<Rightarrow> (outcome py \<times> engine option) option" where
  "Process_Image_run self Read_Image options0 =
     (case resolve_name options0 of
        Raise x \<Rightarrow> Some (Raise x, None)
      | Return options \<Rightarrow>
          (case map_of options ''image_file'' of
             None \<Rightarrow> Some (Raise KeyError, None)
           | Some file \<Rightarrow>
               (case Read_Image file options of
                  ReadRaises \<Rightarrow> Some (Return Failure, None)
                | ReadNone \<Rightarrow> Some (Return Failure, None)
                | ReadArray d \<Rightarrow>
                    (case chunk_missing d of
                       Raise x \<Rightarrow> Some (Raise x, None)
                     | Return True \<Rightarrow> Some (Return Failure, None)
                     | Return False \<Rightarrow>
                         map_option (\<lambda>(r, e). (r, Some e))
                           (run self options (init_engine d))))))"

definition Process_Image ::
  "pipeline \<Rightarrow> (pyval \<Rightarrow> options \<Rightarrow> read_result) \<Rightarrow> options \<Rightarrow> outcome py option" where
  "Process_Image self Read_Image options =
     map_option fst (Process_Image_run self Read_Image options)"

section \<open>The batch runner\<close>

text \<open>
  Lines 172 to 187: one options dictionary per image. \<^verbatim>\<open>options[k][i]\<close> raises
  \<^verbatim>\<open>IndexError\<close> when a list-valued option is shorter than the list of images.
\<close>

definition is_list :: "pyval \<Rightarrow> bool" where
  "is_list v = (case v of VList l \<Rightarrow> True | _ \<Rightarrow> False)"

definition pick :: "nat \<Rightarrow> pyval \<Rightarrow> pyval py" where
  "pick i v =
     (case v of
        VList l \<Rightarrow> if i < length l then Return (l ! i) else Raise IndexError
      | _ \<Rightarrow> Return v)"

fun tmp_options :: "nat \<Rightarrow> options \<Rightarrow> options py" where
  "tmp_options i [] = Return []"
| "tmp_options i ((k, v) # kvs) =
     (case pick i v of
        Raise x \<Rightarrow> Raise x
      | Return u \<Rightarrow>
          (case tmp_options i kvs of
             Raise x \<Rightarrow> Raise x
           | Return rest \<Rightarrow> Return ((k, u) # rest)))"

fun collect :: "'a py list \<Rightarrow> 'a list py" where
  "collect [] = Return []"
| "collect (Raise x # ps) = Raise x"
| "collect (Return a # ps) =
     (case collect ps of Raise x \<Rightarrow> Raise x | Return as \<Rightarrow> Return (a # as))"

definition use_options :: "options \<Rightarrow> options list py" where
  "use_options options =
     (case map_of options ''image_file'' of
        None \<Rightarrow> Raise KeyError
      | Some (VList files) \<Rightarrow>
          if \<forall>v \<in> set (map snd options). \<not> is_list v
          then Return (replicate (length files) options)
          else collect (map (\<lambda>i. tmp_options i options) [0 ..< length files])
      | Some other \<Rightarrow> Raise AssertionError)"

text \<open>
  Lines 192 to 197. \<^verbatim>\<open>map\<close> calls \<^verbatim>\<open>Process_Image\<close> on the jobs in order; an exception
  that a job does not catch leaves \<^verbatim>\<open>Process_List\<close>, and a job that does not return
  keeps it from returning. \<^verbatim>\<open>Pool.map\<close> hands the jobs to worker processes and, as the
  library documents, returns their results in the order of its input: when every job
  returns, that is the list \<^verbatim>\<open>map\<close> computes, whichever worker finished first.
\<close>

fun run_jobs :: "('j \<Rightarrow> 'r py option) \<Rightarrow> 'j list \<Rightarrow> 'r list py option" where
  "run_jobs f [] = Some (Return [])"
| "run_jobs f (j # js) =
     (case f j of
        None \<Rightarrow> None
      | Some (Raise x) \<Rightarrow> Some (Raise x)
      | Some (Return r) \<Rightarrow>
          (case run_jobs f js of
             None \<Rightarrow> None
           | Some (Raise x) \<Rightarrow> Some (Raise x)
           | Some (Return rs) \<Rightarrow> Some (Return (r # rs))))"

text \<open>
  Lines 201 to 212: the running totals and the counts. \<^verbatim>\<open>d[s] += v\<close> reads \<^verbatim>\<open>d[s]\<close> first and
  raises \<^verbatim>\<open>KeyError\<close> when the key is missing. The dictionary \<^verbatim>\<open>timers\<close> of
  \<^verbatim>\<open>Process_List\<close> is called \<open>totals\<close> here, the name \<open>timers\<close> being the field of the engine.
\<close>

definition dict_add :: "'k \<Rightarrow> rat \<Rightarrow> ('k \<times> rat) list \<Rightarrow> ('k \<times> rat) list py" where
  "dict_add s v d =
     (if s \<in> set (map fst d) then Return (AList.map_entry s (\<lambda>x. x + v) d)
      else Raise KeyError)"

fun add_timing :: "timing \<Rightarrow> timing \<times> timing \<Rightarrow> (timing \<times> timing) py" where
  "add_timing [] (totals, counts) = Return (totals, counts)"
| "add_timing ((s, v) # r) (totals, counts) =
     (if s \<in> set (map fst totals) then
        (case dict_add s v totals of
           Raise x \<Rightarrow> Raise x
         | Return totals' \<Rightarrow>
             (case dict_add s 1 counts of
                Raise x \<Rightarrow> Raise x
              | Return counts' \<Rightarrow> add_timing r (totals', counts')))
      else add_timing r (AList.update s v totals, AList.update s 1 counts))"

fun accumulate :: "outcome list \<Rightarrow> timing \<times> timing \<Rightarrow> (timing \<times> timing) py" where
  "accumulate [] tc = Return tc"
| "accumulate (Failure # res) tc = accumulate res tc"
| "accumulate (Success r # res) tc =
     (case add_timing r tc of Raise x \<Rightarrow> Raise x | Return tc' \<Rightarrow> accumulate res tc')"

text \<open>
  Lines 216 to 218: \<^verbatim>\<open>timers[s] /= counts[s]\<close> for every key of \<^verbatim>\<open>timers\<close>, each mean
  logged as it is computed. The times are Python floats; the model computes with
  exact rationals.
\<close>

datatype py_arith = MissingKey | ZeroDivision | Value rat

definition divide_by :: "rat \<Rightarrow> timing \<Rightarrow> string \<Rightarrow> py_arith" where
  "divide_by t counts s =
     (case map_of counts s of
        None \<Rightarrow> MissingKey
      | Some c \<Rightarrow> if c = 0 then ZeroDivision else Value (t / c))"

fun means :: "timing \<Rightarrow> timing \<Rightarrow> timing option" where
  "means [] counts = Some []"
| "means ((s, t) # ts) counts =
     (case divide_by t counts s of
        Value m \<Rightarrow> (case means ts counts of None \<Rightarrow> None | Some ms \<Rightarrow> Some ((s, m) # ms))
      | _ \<Rightarrow> None)"

text \<open>
  What the caller of \<^verbatim>\<open>Process_List\<close> can observe: the value returned (\<open>None\<close> is
  Python's \<^verbatim>\<open>None\<close>, from the bare \<^verbatim>\<open>return\<close> at line 215) and the lines written to
  the log.
\<close>

datatype log_entry = LogFinished | LogAllFailed | LogMean string rat

record batch =
  returned :: "outcome list option"
  logged :: "log_entry list"

definition report :: "outcome list \<Rightarrow> batch py" where
  "report res =
     (case accumulate res ([], []) of
        Raise x \<Rightarrow> Raise x
      | Return (totals, counts) \<Rightarrow>
          if length totals = 0
          then Return \<lparr>returned = None, logged = [LogFinished, LogAllFailed]\<rparr>
          else (case means totals counts of
                  None \<Rightarrow> Raise KeyError
                | Some ms \<Rightarrow>
                    Return \<lparr>returned = Some res,
                            logged = LogFinished # map (\<lambda>(s, m). LogMean s m) ms\<rparr>))"

definition Process_List ::
  "pipeline \<Rightarrow> (pyval \<Rightarrow> options \<Rightarrow> read_result) \<Rightarrow> options \<Rightarrow> batch py option" where
  "Process_List self Read_Image options =
     (case use_options options of
        Raise x \<Rightarrow> Some (Raise x)
      | Return jobs \<Rightarrow>
          (case map_of options ''n_procs'' of
             None \<Rightarrow> Some (Raise KeyError)
           | Some (VNum n) \<Rightarrow>
               (case (if n > 1 then run_jobs (Process_Image self Read_Image) jobs
                      else run_jobs (Process_Image self Read_Image) jobs) of
                  None \<Rightarrow> None
                | Some (Raise x) \<Rightarrow> Some (Raise x)
                | Some (Return res) \<Rightarrow> Some (report res))
           | Some other \<Rightarrow> Some (Raise TypeError)))"

text \<open>
  To speak about the dictionaries of the aggregation: the number stored under a key
  (0 when the key is absent), the values a dictionary given as a list of entries holds
  for a key, and those values over all the successes of a batch.
\<close>

definition stored :: "('k \<times> rat) list \<Rightarrow> 'k \<Rightarrow> rat" where
  "stored d X = (case map_of d X of None \<Rightarrow> 0 | Some v \<Rightarrow> v)"

definition entry_values :: "'k \<Rightarrow> ('k \<times> rat) list \<Rightarrow> rat list" where
  "entry_values X r = map snd (filter (\<lambda>kv. fst kv = X) r)"

definition success_values :: "string \<Rightarrow> outcome list \<Rightarrow> rat list" where
  "success_values X res =
     concat (map (\<lambda>r. case r of Failure \<Rightarrow> [] | Success t \<Rightarrow> entry_values X t) res)"

section \<open>Running from a configuration file\<close>

text \<open>
  \<^verbatim>\<open>Process_ConfigFile\<close> after the import of the module: the pipeline is configured,
  \<^verbatim>\<open>GetOptions\<close> (another module) turns the configuration into options, and
  \<^verbatim>\<open>process_mode\<close> selects the runner. The configured pipeline is returned too, since
  the object keeps it.
\<close>

datatype config_result = ImageResult "outcome py" | ListResult "batch py" | Unrecognized

definition Process_ConfigFile ::
  "pipeline \<Rightarrow> (pyval \<Rightarrow> options \<Rightarrow> read_result) \<Rightarrow> (config \<Rightarrow> options) \<Rightarrow> config
     \<Rightarrow> config_result option \<times> pipeline" where
  "Process_ConfigFile self Read_Image GetOptions c =
     (let self' = configure c self; opts = GetOptions c
      in if process_mode c \<in> set [''image'', ''forced image'']
         then (map_option ImageResult (Process_Image self' Read_Image opts), self')
         else if process_mode c \<in> set [''image list'', ''forced image list'']
         then (map_option ListResult (Process_List self' Read_Image opts), self')
         else (Some Unrecognized, self'))"

section \<open>The specification's notions\<close>

text \<open>
  The forced sequence as the specification lists it: background, point-spread estimate,
  forced center-finding, forced isophote fitting, forced extraction, writer.
\<close>

definition spec_forced_sequence :: "string list" where
  "spec_forced_sequence = [''background'', ''psf'', ''center forced'',
                           ''isophotefit forced'', ''isophoteextract forced'', ''writeprof'']"

text \<open>
  "A centered window of 20 by 20 pixels at the frame midpoint is uniformly zero": every
  pixel of the frame whose row is within 10 below and 10 above half the height, and
  whose column is within 10 left and 10 right of half the width, is zero.
\<close>

definition spec_window_zero :: "image \<Rightarrow> bool" where
  "spec_window_zero d =
     (let h = int (length d); w = int (length (hd d))
      in \<forall>i \<in> {0 ..< length d}. \<forall>j \<in> {0 ..< length (d ! i)}.
           h div 2 - 10 \<le> int i \<and> int i < h div 2 + 10 \<and>
           w div 2 - 10 \<le> int j \<and> int j < w div 2 + 10 \<longrightarrow> d ! i ! j = 0)"

text \<open>
  "The arithmetic mean of Timing[X] over exactly the successes whose Timing contains X":
  the times recorded for \<open>X\<close>, one for each success that has the key, and their mean when
  there is at least one.
\<close>

definition spec_times :: "string \<Rightarrow> outcome list \<Rightarrow> rat list" where
  "spec_times X res =
     concat (map (\<lambda>r. case r of
                         Failure \<Rightarrow> []
                       | Success t \<Rightarrow> (case map_of t X of None \<Rightarrow> [] | Some v \<Rightarrow> [v])) res)"

definition spec_mean :: "string \<Rightarrow> outcome list \<Rightarrow> rat option" where
  "spec_mean X res =
     (let vs = spec_times X res
      in if vs = [] then None else Some (sum_list vs / of_nat (length vs)))"

section \<open>Example pipelines\<close>

text \<open>Small registries and inputs on which the theorems below are exercised.\<close>

definition step_ok :: step_fn where
  "step_ok d r opts = (RetPair d [], 1 / 2)"

definition step_slow :: step_fn where
  "step_slow d r opts = (RetPair d [(''psf fwhm'', VNum 3)], 3 / 2)"

definition step_raises :: step_fn where
  "step_raises d r opts = (Raises, 0)"

definition step_goto_tail :: step_fn where
  "step_goto_tail d r opts = (RetStr ''tail'', 0)"

definition step_no_redirect :: step_fn where
  "step_no_redirect d r opts = (RetOther, 0)"

definition read_pixel :: "pyval \<Rightarrow> options \<Rightarrow> read_result" where
  "read_pixel file opts = ReadArray [[1]]"

definition read_fails :: "pyval \<Rightarrow> options \<Rightarrow> read_result" where
  "read_fails file opts = ReadRaises"

definition read_none :: "pyval \<Rightarrow> options \<Rightarrow> read_result" where
  "read_none file opts = ReadNone"

text \<open>A 42 by 42 frame of ones whose central 40 by 40 block is zero.\<close>

definition hollow_frame :: image where
  "hollow_frame =
     replicate 42 1 # replicate 40 (1 # replicate 40 0 @ [1]) @ [replicate 42 1]"

definition read_hollow :: "pyval \<Rightarrow> options \<Rightarrow> read_result" where
  "read_hollow file opts = ReadArray hollow_frame"

definition initial_pipeline :: pipeline where
  "initial_pipeline = \<lparr>pipeline_methods = Map.empty, pipeline_steps = default_steps\<rparr>"

definition twice_pipeline :: pipeline where
  "twice_pipeline =
     \<lparr>pipeline_methods = [''background'' \<mapsto> step_ok],
      pipeline_steps = [(''head'', [''background'', ''background''])]\<rparr>"

definition branching_pipeline :: pipeline where
  "branching_pipeline =
     \<lparr>pipeline_methods = [''background'' \<mapsto> step_ok, ''psf'' \<mapsto> step_slow,
                          ''branch tail'' \<mapsto> step_goto_tail,
                          ''branch stay'' \<mapsto> step_no_redirect],
      pipeline_steps = [(''head'', [''background'', ''branch stay'', ''branch tail'']),
                        (''tail'', [''psf''])]\<rparr>"

definition dangling_pipeline :: pipeline where
  "dangling_pipeline =
     \<lparr>pipeline_methods = [''background'' \<mapsto> step_ok, ''branch tail'' \<mapsto> step_goto_tail],
      pipeline_steps = [(''head'', [''background'', ''branch tail''])]\<rparr>"

text \<open>
  A registry in which a Regular function sits under a name with \<^verbatim>\<open>'branch'\<close> in it, and
  a redirecting function under a name without.
\<close>

definition misnamed_pipeline :: pipeline where
  "misnamed_pipeline =
     \<lparr>pipeline_methods = [''branch background'' \<mapsto> step_slow, ''goto tail'' \<mapsto> step_goto_tail],
      pipeline_steps = [(''head'', [''branch background'', ''goto tail'']), (''tail'', [])]\<rparr>"

text \<open>
  A batch of three images: the first and the third are read, with different pixels, the
  second cannot be read. The time of \<^verbatim>\<open>'background'\<close> depends on the pixel.
\<close>

definition step_by_pixel :: step_fn where
  "step_by_pixel d r opts = (RetPair d [], (case d of (x # xs) # rows \<Rightarrow> x / 2 | _ \<Rightarrow> 0))"

definition read_by_file :: "pyval \<Rightarrow> options \<Rightarrow> read_result" where
  "read_by_file file opts =
     (if file = VStr ''a.fits'' then ReadArray [[1]]
      else if file = VStr ''b.fits'' then ReadRaises
      else ReadArray [[3]])"

definition batch_pipeline :: pipeline where
  "batch_pipeline =
     \<lparr>pipeline_methods = [''background'' \<mapsto> step_by_pixel, ''psf'' \<mapsto> step_slow],
      pipeline_steps = [(''head'', [''background'', ''psf''])]\<rparr>"

definition three_images :: options where
  "three_images = [(''image_file'', VList [VStr ''a.fits'', VStr ''b.fits'', VStr ''c.fits'']),
                   (''n_procs'', VNum 2)]"

definition three_jobs :: "options list" where
  "three_jobs = [[(''image_file'', VStr ''a.fits''), (''n_procs'', VNum 2)],
                 [(''image_file'', VStr ''b.fits''), (''n_procs'', VNum 2)],
                 [(''image_file'', VStr ''c.fits''), (''n_procs'', VNum 2)]]"

definition three_outcomes :: "outcome list" where
  "three_outcomes = [Success [(''background'', 1 / 2), (''psf'', 3 / 2)], Failure,
                     Success [(''background'', 3 / 2), (''psf'', 3 / 2)]]"

definition one_image :: options where
  "one_image = [(''image_file'', VStr ''path/to/img.fits'')]"

definition two_images :: options where
  "two_images = [(''image_file'', VList [VStr ''a.fits'', VStr ''b.fits'']),
                 (''n_procs'', VNum 1)]"

section \<open>Configuration: sequences and the forced mode\<close>

text \<open>
  Claim C3, at the input \<^verbatim>\<open>path/to/img.fits\<close>. \<^verbatim>\<open>rfind('/')\<close> is the index of the last
  slash itself, so the slice that \<^verbatim>\<open>Process_Image\<close> stores as the name starts with the
  slash: the name is \<^verbatim>\<open>/img\<close> and not \<^verbatim>\<open>img\<close>. \<^verbatim>\<open>Process_ConfigFile\<close> strips the
  directory of its own argument with \<^verbatim>\<open>rfind('/') + 1\<close> and gets \<^verbatim>\<open>img\<close> from the same
  string.
\<close>

theorem derive_name_keeps_slash:
  "resolve_name [(''image_file'', VStr ''path/to/img.fits'')] =
     Return [(''image_file'', VStr ''path/to/img.fits''), (''name'', VStr ''/img'')]
   \<and> derive_name ''path/to/img.fits'' \<noteq> ''img''
   \<and> derive_config_name ''path/to/img.fits'' = ''img''"
  by code_simp

text \<open>
  Claim C4 as stated fails on the empty mapping: it has no \<^verbatim>\<open>'head'\<close> key, and the guard
  \<^verbatim>\<open>if new_pipeline_steps:\<close> skips it, so nothing is raised. The empty list is skipped
  in the same way and replaces nothing.
\<close>

theorem empty_mapping_is_accepted:
  "''head'' \<notin> set (map fst ([] :: (string \<times> string list) list))
   \<and> UpdatePipeline None (StepsDict []) initial_pipeline = (None, initial_pipeline)
   \<and> UpdatePipeline None (StepsList []) initial_pipeline = (None, initial_pipeline)"
  by (simp add: UpdatePipeline_def)

text \<open>
  Claim C4, amended. Whatever methods are passed along: a non-empty mapping without
  \<^verbatim>\<open>'head'\<close> raises \<^verbatim>\<open>AssertionError\<close> and leaves the sequences as they were; a mapping
  with \<^verbatim>\<open>'head'\<close> becomes the whole of the sequences; a non-empty list becomes the
  \<^verbatim>\<open>'head'\<close> sequence and every other sequence stays; the empty mapping and the empty
  list change nothing and raise nothing.
\<close>

theorem UpdatePipeline_sequences:
  "(d \<noteq> [] \<and> ''head'' \<notin> set (map fst d) \<longrightarrow>
      fst (UpdatePipeline m (StepsDict d) self) = Some AssertionError
      \<and> pipeline_steps (snd (UpdatePipeline m (StepsDict d) self)) = pipeline_steps self)
   \<and> (''head'' \<in> set (map fst d) \<longrightarrow>
      fst (UpdatePipeline m (StepsDict d) self) = None
      \<and> pipeline_steps (snd (UpdatePipeline m (StepsDict d) self)) = d)
   \<and> (l \<noteq> [] \<longrightarrow>
      fst (UpdatePipeline m (StepsList l) self) = None
      \<and> pipeline_steps (snd (UpdatePipeline m (StepsList l) self))
          = AList.update ''head'' l (pipeline_steps self)
      \<and> map_of (pipeline_steps (snd (UpdatePipeline m (StepsList l) self)))
          = (map_of (pipeline_steps self))(''head'' \<mapsto> l))
   \<and> UpdatePipeline None (StepsDict []) self = (None, self)
   \<and> UpdatePipeline None (StepsList []) self = (None, self)"
  by (auto simp add: UpdatePipeline_def Let_def update_conv' split: option.splits)

text \<open>
  The amended claim C4 at a mapping with only a \<^verbatim>\<open>'tail'\<close> sequence, at a mapping with
  \<^verbatim>\<open>'head'\<close> and \<^verbatim>\<open>'tail'\<close>, and at a one-step list given to a pipeline that has a
  \<^verbatim>\<open>'tail'\<close> sequence.
\<close>

theorem UpdatePipeline_sequences_witness:
  "fst (UpdatePipeline None (StepsDict [(''tail'', [''psf''])]) initial_pipeline)
     = Some AssertionError
   \<and> pipeline_steps (snd (UpdatePipeline None (StepsDict [(''tail'', [''psf''])])
                            initial_pipeline)) = default_steps
   \<and> pipeline_steps (snd (UpdatePipeline None
                            (StepsDict [(''head'', [''psf'']), (''tail'', [])])
                            initial_pipeline))
        = [(''head'', [''psf'']), (''tail'', [])]
   \<and> pipeline_steps (snd (UpdatePipeline None (StepsList [''psf'']) branching_pipeline))
        = [(''head'', [''psf'']), (''tail'', [''psf''])]"
  using UpdatePipeline_sequences [of "[(''tail'', [''psf''])]" None initial_pipeline "[''psf'']"]
    UpdatePipeline_sequences [of "[(''head'', [''psf'']), (''tail'', [])]" None
                                 initial_pipeline "[''psf'']"]
    UpdatePipeline_sequences [of "[]" None branching_pipeline "[''psf'']"]
  by (simp add: initial_pipeline_def branching_pipeline_def)

text \<open>
  Claim C2 as stated fails: with \<^verbatim>\<open>process_mode = 'forced image'\<close> and no overrides, the
  \<^verbatim>\<open>'head'\<close> sequence is not the six steps the specification lists.
\<close>

theorem forced_head_differs_from_listed:
  "map_of (pipeline_steps (configure
       \<lparr>process_mode = ''forced image'', new_pipeline_methods = None,
        new_pipeline_steps = None\<rparr>
       initial_pipeline)) ''head'' \<noteq> Some spec_forced_sequence"
  by code_simp

text \<open>
  Claim C2, amended. When \<^verbatim>\<open>'forced'\<close> occurs in the process mode and the configuration
  has no overrides, the \<^verbatim>\<open>'head'\<close> sequence is background, point-spread estimate, forced
  center-finding, isophote initialisation, forced isophote fitting, forced extraction,
  writer: seven steps, the isophote initialisation kept and the fit-quality check
  omitted. The registry is untouched.
\<close>

theorem forced_head:
  assumes "py_in ''forced'' (process_mode c)"
    and "new_pipeline_methods c = None" and "new_pipeline_steps c = None"
  shows "map_of (pipeline_steps (configure c self)) ''head''
           = Some [''background'', ''psf'', ''center forced'', ''isophoteinit'',
                   ''isophotefit forced'', ''isophoteextract forced'', ''writeprof'']
         \<and> ''checkfit'' \<notin> set (the (map_of (pipeline_steps (configure c self)) ''head''))
         \<and> pipeline_methods (configure c self) = pipeline_methods self"
  using assms
  by (simp add: configure_def UpdatePipeline_def forced_steps_def update_conv')

text \<open>The amended claim C2 at \<^verbatim>\<open>process_mode = 'forced image list'\<close>, from the initial pipeline.\<close>

theorem forced_head_witness:
  "py_in ''forced'' ''forced image list''
   \<and> map_of (pipeline_steps (configure
       \<lparr>process_mode = ''forced image list'', new_pipeline_methods = None,
        new_pipeline_steps = None\<rparr> initial_pipeline)) ''head''
     = Some [''background'', ''psf'', ''center forced'', ''isophoteinit'',
             ''isophotefit forced'', ''isophoteextract forced'', ''writeprof'']"
proof -
  have h: "py_in ''forced'' ''forced image list''"
    by code_simp
  from forced_head [of "\<lparr>process_mode = ''forced image list'', new_pipeline_methods = None,
                         new_pipeline_steps = None\<rparr>" initial_pipeline] h
  show ?thesis by simp
qed

section \<open>The engine: one pass of the loop\<close>



text \<open>
  Claim C9. The test \<^verbatim>\<open>'branch' in name\<close> alone selects the kind of the pass; the function
  found under the name is called either way and its return value read accordingly.
  Under a name with \<^verbatim>\<open>'branch'\<close>, a function that returns a pair \<^verbatim>\<open>(image, results)\<close> is
  called as a Branch step: the pair is no string, so the index advances and the pair is
  dropped (no results merged, no time recorded); a returned string redirects. Under a
  name without \<^verbatim>\<open>'branch'\<close>, the function is called as a Regular step: a returned
  string or \<^verbatim>\<open>None\<close> does not unpack, which is a fault, and a returned pair is merged
  and timed.
\<close>

theorem dispatch_by_name:
  assumes "pipeline_methods self (seq ! step e) = Some f"
  shows "(py_in ''branch'' (seq ! step e) \<longrightarrow>
            (f (dat e) (results e) options = (RetPair d r, t) \<longrightarrow>
               tick self options seq e
                 = Next (e\<lparr>calls := calls e @ [BranchCall (seq ! step e)], step := step e + 1\<rparr>))
          \<and> (f (dat e) (results e) options = (RetStr k, t) \<longrightarrow>
               tick self options seq e
                 = Next (e\<lparr>calls := calls e @ [BranchCall (seq ! step e)], key := k, step := 0\<rparr>)))
       \<and> (\<not> py_in ''branch'' (seq ! step e) \<longrightarrow>
            (f (dat e) (results e) options = (RetStr k, t) \<longrightarrow>
               tick self options seq e
                 = Fault (e\<lparr>calls := calls e @ [RegularCall (seq ! step e)]\<rparr>))
          \<and> (f (dat e) (results e) options = (RetOther, t) \<longrightarrow>
               tick self options seq e
                 = Fault (e\<lparr>calls := calls e @ [RegularCall (seq ! step e)]\<rparr>))
          \<and> (f (dat e) (results e) options = (RetPair d r, t) \<longrightarrow>
               tick self options seq e
                 = Next (e\<lparr>calls := calls e @ [RegularCall (seq ! step e)], dat := d,
                           results := dict_update (results e) r,
                           timers := AList.update (seq ! step e) t (timers e),
                           step := step e + 1\<rparr>)))"
  using assms by (simp add: tick_def Let_def)

text \<open>
  Claim C9 on the example registry: the Regular function under \<^verbatim>\<open>'branch background'\<close>
  is called as a Branch step, the redirecting function under \<^verbatim>\<open>'goto tail'\<close> as a
  Regular step.
\<close>

theorem dispatch_by_name_witness:
  "py_in ''branch'' ''branch background'' \<and> \<not> py_in ''branch'' ''goto tail''
   \<and> tick misnamed_pipeline one_image [''branch background'', ''goto tail''] (init_engine [[1]])
       = Next ((init_engine [[1]])\<lparr>calls := [BranchCall ''branch background''], step := 1\<rparr>)
   \<and> tick misnamed_pipeline one_image [''branch background'', ''goto tail'']
          ((init_engine [[1]])\<lparr>step := 1\<rparr>)
       = Fault ((init_engine [[1]])\<lparr>step := 1, calls := [RegularCall ''goto tail'']\<rparr>)"
proof -
  let ?seq = "[''branch background'', ''goto tail'']"
  let ?e0 = "init_engine [[1]]" and ?e1 = "(init_engine [[1]])\<lparr>step := 1\<rparr>"
  have b: "py_in ''branch'' ''branch background''" and nb: "\<not> py_in ''branch'' ''goto tail''"
    by code_simp+
  have n0: "?seq ! step ?e0 = ''branch background''" and n1: "?seq ! step ?e1 = ''goto tail''"
    by (simp_all add: init_engine_def)
  have f0: "pipeline_methods misnamed_pipeline (?seq ! step ?e0) = Some step_slow"
    and f1: "pipeline_methods misnamed_pipeline (?seq ! step ?e1) = Some step_goto_tail"
    unfolding n0 n1 by (simp_all add: misnamed_pipeline_def)
  have r0: "step_slow (dat ?e0) (results ?e0) one_image
              = (RetPair [[1]] [(''psf fwhm'', VNum 3)], 3 / 2)"
    and r1: "step_goto_tail (dat ?e1) (results ?e1) one_image = (RetStr ''tail'', 0)"
    by (simp_all add: step_slow_def step_goto_tail_def init_engine_def)
  from dispatch_by_name [OF f0, of one_image "[[1]]" "[(''psf fwhm'', VNum 3)]" "3 / 2" "''tail''"]
    b r0
  have c0: "tick misnamed_pipeline one_image ?seq ?e0
              = Next (?e0\<lparr>calls := calls ?e0 @ [BranchCall ''branch background''],
                         step := step ?e0 + 1\<rparr>)"
    unfolding n0 by blast
  from dispatch_by_name [OF f1, of one_image "[[1]]" "[]" 0 "''tail''"] nb r1
  have c1: "tick misnamed_pipeline one_image ?seq ?e1
              = Fault (?e1\<lparr>calls := calls ?e1 @ [RegularCall ''goto tail'']\<rparr>)"
    unfolding n1 by blast
  have v: "calls ?e0 = []" "step ?e0 + 1 = 1" "calls ?e1 = []"
    by (simp_all add: init_engine_def)
  from c0 c1 b nb show ?thesis
    unfolding v by simp
qed

section \<open>The engine: runs\<close>

text \<open>
  The loop from a state is the loop from any state it reaches by passes of its body.
\<close>

lemma run_after_ticks:
  "after_ticks self options n e = Some e' \<Longrightarrow> run self options e = run self options e'"
proof (induction n arbitrary: e)
  case 0
  then show ?case by simp
next
  case (Suc n)
  from Suc.prems obtain seq e1 where s: "map_of (pipeline_steps self) (key e) = Some seq"
    "step e < length seq" "tick self options seq e = Next e1" "after_ticks self options n e1 = Some e'"
    by (auto split: option.splits if_splits tick_result.splits)
  have "run self options e = run self options e1"
    using s(1-3) by (subst run.simps) simp
  with Suc.IH [OF s(4)] show ?case by simp
qed

text \<open>
  Claim C10. When the image has passed the checks and the run has come, after some
  passes, to a Branch step that returns a string naming no sequence, the guard of the
  loop looks that name up outside the \<^verbatim>\<open>try\<close>: \<^verbatim>\<open>Process_Image\<close> raises \<^verbatim>\<open>KeyError\<close> and
  does not return the sentinel.
\<close>

theorem unknown_sequence_raises:
  assumes "resolve_name options0 = Return options"
    and "map_of options ''image_file'' = Some file"
    and "Read_Image file options = ReadArray d"
    and "chunk_missing d = Return False"
    and "after_ticks self options n (init_engine d) = Some e"
    and "map_of (pipeline_steps self) (key e) = Some seq" and "step e < length seq"
    and "py_in ''branch'' (seq ! step e)"
    and "pipeline_methods self (seq ! step e) = Some f"
    and "fst (f (dat e) (results e) options) = RetStr k"
    and "map_of (pipeline_steps self) k = None"
  shows "Process_Image self Read_Image options0 = Some (Raise KeyError)"
proof -
  let ?e1 = "e\<lparr>calls := calls e @ [BranchCall (seq ! step e)], key := k, step := 0\<rparr>"
  have t: "tick self options seq e = Next ?e1"
    using assms(8-10) by (simp add: tick_def)
  have "run self options e = run self options ?e1"
    using assms(6,7) t by (subst run.simps) simp
  also have "\<dots> = Some (Raise KeyError, ?e1)"
    using assms(11) by (subst run.simps) simp
  finally have "run self options (init_engine d) = Some (Raise KeyError, ?e1)"
    using run_after_ticks [OF assms(5)] by simp
  then show ?thesis
    using assms(1-4) by (simp add: Process_Image_def Process_Image_run_def)
qed

text \<open>
  Claim C10 on the example whose second step redirects to \<^verbatim>\<open>'tail'\<close>, a sequence that
  is not there.
\<close>

theorem unknown_sequence_raises_witness:
  "after_ticks dangling_pipeline [(''image_file'', VStr ''path/to/img.fits''), (''name'', VStr ''/img'')]
       1 (init_engine [[1]])
     = Some \<lparr>key = ''head'', step = 1, dat = [[1]], results = [],
             timers = [(''background'', 1 / 2)], calls = [RegularCall ''background'']\<rparr>
   \<and> map_of (pipeline_steps dangling_pipeline) ''tail'' = None
   \<and> Process_Image dangling_pipeline read_pixel one_image = Some (Raise KeyError)"
proof -
  let ?opts = "[(''image_file'', VStr ''path/to/img.fits''), (''name'', VStr ''/img'')]"
  let ?e = "\<lparr>key = ''head'', step = 1, dat = [[1]], results = [],
             timers = [(''background'', 1 / 2)], calls = [RegularCall ''background'']\<rparr>"
  let ?seq = "[''background'', ''branch tail'']"
  have h1: "resolve_name one_image = Return ?opts" by code_simp
  have h2: "map_of ?opts ''image_file'' = Some (VStr ''path/to/img.fits'')" by simp
  have h3: "read_pixel (VStr ''path/to/img.fits'') ?opts = ReadArray [[1]]"
    by (simp add: read_pixel_def)
  have h4: "chunk_missing [[1]] = Return False" by code_simp
  have h5: "after_ticks dangling_pipeline ?opts 1 (init_engine [[1]]) = Some ?e" by code_simp
  have h6: "map_of (pipeline_steps dangling_pipeline) (key ?e) = Some ?seq"
    by (simp add: dangling_pipeline_def)
  have h7: "step ?e < length ?seq" by simp
  have bt: "py_in ''branch'' ''branch tail''" by code_simp
  have h8: "py_in ''branch'' (?seq ! step ?e)" using bt by simp
  have h9: "pipeline_methods dangling_pipeline (?seq ! step ?e) = Some step_goto_tail"
    by (simp add: dangling_pipeline_def)
  have h10: "fst (step_goto_tail (dat ?e) (results ?e) ?opts) = RetStr ''tail''"
    by (simp add: step_goto_tail_def)
  have h11: "map_of (pipeline_steps dangling_pipeline) ''tail'' = None"
    by (simp add: dangling_pipeline_def)
  from unknown_sequence_raises [where Read_Image = read_pixel and f = step_goto_tail,
      OF h1 h2 h3 h4 h5 h6 h7 h8 h9 h10 h11] h5 h11
  show ?thesis by simp
qed

section \<open>The engine: timers and calls\<close>

text \<open>
  Claim C5 as stated fails when a Regular step runs more than once: the timers are a
  dictionary keyed by the step name, and the second run overwrites the entry of the
  first. With \<^verbatim>\<open>'background'\<close> twice in \<^verbatim>\<open>'head'\<close>, two Regular steps are executed and
  the timers returned have one entry.
\<close>

theorem repeated_step_is_timed_once:
  "Process_Image_run twice_pipeline read_pixel one_image
     = Some (Return (Success [(''background'', 1 / 2)]),
             Some \<lparr>key = ''head'', step = 2, dat = [[1]], results = [],
                    timers = [(''background'', 1 / 2)],
                    calls = [RegularCall ''background'', RegularCall ''background'']\<rparr>)
   \<and> length [(''background'', 1 / 2 :: rat)]
       \<noteq> length (regular_calls [RegularCall ''background'', RegularCall ''background''])"
  by code_simp

lemma regular_calls_append: "regular_calls (cs @ ds) = regular_calls cs @ regular_calls ds"
  by (induction cs rule: regular_calls.induct) simp_all

lemma branch_calls_append: "branch_calls (cs @ ds) = branch_calls cs @ branch_calls ds"
  by (induction cs rule: branch_calls.induct) simp_all

text \<open>
  A pass that does not end the run either is a Branch call, which leaves the timers,
  or a Regular call, which stores a time under the name of the step.
\<close>

lemma tick_Next_cases:
  assumes "tick self options seq e = Next e'"
  shows "(py_in ''branch'' (seq ! step e) \<and> timers e' = timers e
            \<and> calls e' = calls e @ [BranchCall (seq ! step e)])
         \<or> (\<not> py_in ''branch'' (seq ! step e)
            \<and> (\<exists>t. timers e' = AList.update (seq ! step e) t (timers e))
            \<and> calls e' = calls e @ [RegularCall (seq ! step e)])"
  using assms
  by (auto simp add: tick_def Let_def split: option.splits retval.splits prod.splits if_splits)

lemma tick_keeps_match:
  assumes "timers_match_calls e" and "tick self options seq e = Next e'"
  shows "timers_match_calls e'"
  using tick_Next_cases [OF assms(2)]
proof (elim disjE conjE exE)
  assume "py_in ''branch'' (seq ! step e)" "timers e' = timers e"
    "calls e' = calls e @ [BranchCall (seq ! step e)]"
  with assms(1) show ?thesis
    by (simp add: timers_match_calls_def regular_calls_append branch_calls_append)
next
  fix t
  assume "\<not> py_in ''branch'' (seq ! step e)"
    "timers e' = AList.update (seq ! step e) t (timers e)"
    "calls e' = calls e @ [RegularCall (seq ! step e)]"
  with assms(1) show ?thesis
    by (simp add: timers_match_calls_def regular_calls_append branch_calls_append
          dom_update distinct_update)
qed

text \<open>
  Partial correctness of the loop for the invariant: by the induction rule of the
  loop, a run that returns timers returns those of a state which satisfies it.
\<close>

lemma run_success_match:
  assumes "run self options e = Some y"
  shows "timers_match_calls e \<longrightarrow>
         (\<forall>t ef. y = (Return (Success t), ef) \<longrightarrow> timers_match_calls ef \<and> t = timers ef)"
  using assms
proof (induction rule: run.raw_induct [rotated 1, consumes 1])
  case (1 run' self options e y)
  show ?case
  proof (intro impI allI)
    fix t ef
    assume inv: "timers_match_calls e" and y: "y = (Return (Success t), ef)"
    from "1.hyps" y obtain seq where seq: "map_of (pipeline_steps self) (key e) = Some seq"
      by (auto split: option.splits)
    show "timers_match_calls ef \<and> t = timers ef"
    proof (cases "step e < length seq")
      case False
      with "1.hyps" seq y inv show ?thesis by auto
    next
      case True
      with "1.hyps" seq y obtain e1 where t: "tick self options seq e = Next e1"
        and r: "run' self options e1 = Some y"
        by (auto split: tick_result.splits)
      from "1.IH" [OF r] tick_keeps_match [OF inv t] y show ?thesis by simp
    qed
  qed
qed

text \<open>
  Claim C5, amended. When \<^verbatim>\<open>Process_Image\<close> returns timers, their keys are exactly the
  names of the Regular steps executed, each name once: the number of entries is the
  number of distinct names among the Regular executions. No name invoked as a Branch
  step is a key, and no key contains \<^verbatim>\<open>'branch'\<close>.
\<close>

theorem timing_keys:
  assumes "Process_Image_run self Read_Image options0 = Some (Return (Success t), Some e)"
  shows "t = timers e
         \<and> set (map fst t) = set (regular_calls (calls e))
         \<and> distinct (map fst t)
         \<and> length t = card (set (regular_calls (calls e)))
         \<and> set (map fst t) \<inter> set (branch_calls (calls e)) = {}
         \<and> (\<forall>n \<in> set (map fst t). \<not> py_in ''branch'' n)"
proof -
  from assms obtain opts d where r: "run self opts (init_engine d) = Some (Return (Success t), e)"
    by (auto simp add: Process_Image_run_def
          split: py.splits option.splits read_result.splits bool.splits)
  have "timers_match_calls (init_engine d)"
    by (simp add: timers_match_calls_def init_engine_def)
  with run_success_match [OF r] have m: "timers_match_calls e" and t: "t = timers e"
    by simp_all
  from m t have "length t = card (set (regular_calls (calls e)))"
    by (metis timers_match_calls_def distinct_card length_map)
  with m t show ?thesis
    by (auto simp add: timers_match_calls_def)
qed

text \<open>
  The amended claim C5 on the run that executes \<^verbatim>\<open>'background'\<close> twice.
\<close>

theorem timing_keys_witness:
  "Process_Image_run twice_pipeline read_pixel one_image
     = Some (Return (Success [(''background'', 1 / 2)]),
             Some \<lparr>key = ''head'', step = 2, dat = [[1]], results = [],
                    timers = [(''background'', 1 / 2)],
                    calls = [RegularCall ''background'', RegularCall ''background'']\<rparr>)
   \<and> length [(''background'', 1 / 2 :: rat)]
       = card (set (regular_calls [RegularCall ''background'', RegularCall ''background'']))"
proof -
  have r: "Process_Image_run twice_pipeline read_pixel one_image
     = Some (Return (Success [(''background'', 1 / 2)]),
             Some \<lparr>key = ''head'', step = 2, dat = [[1]], results = [],
                    timers = [(''background'', 1 / 2)],
                    calls = [RegularCall ''background'', RegularCall ''background'']\<rparr>)"
    by code_simp
  from timing_keys [OF r] r show ?thesis by simp
qed

section \<open>The engine: the checks before the loop\<close>

text \<open>
  The elements of a slice with a non-negative upper bound sit at indices within the
  bounds, also when the lower bound is negative and Python counts it from the end.
\<close>

lemma py_slice_elem:
  assumes "0 \<le> b" and "x \<in> set (py_slice s a b)"
  shows "\<exists>i<length s. a \<le> int i \<and> int i < b \<and> s ! i = x"
proof -
  let ?lo = "slice_bound (length s) a" and ?hi = "slice_bound (length s) b"
  from assms(2) have "x \<in> set (take (?hi - ?lo) (drop ?lo s))"
    by (simp add: py_slice_def Let_def)
  then obtain k where k: "k < ?hi - ?lo" "k < length s - ?lo" "s ! (?lo + k) = x"
    by (auto simp add: in_set_conv_nth)
  have lo: "a \<le> int ?lo \<or> length s \<le> ?lo"
    by (auto simp add: slice_bound_def)
  have hi: "int ?hi \<le> b"
    using assms(1) by (auto simp add: slice_bound_def)
  from k lo hi have "?lo + k < length s \<and> a \<le> int (?lo + k) \<and> int (?lo + k) < b"
    by linarith
  with k(3) show ?thesis by blast
qed

lemma window_zero_chunk_missing:
  assumes "d \<noteq> []" and "spec_window_zero d"
  shows "chunk_missing d = Return True"
proof -
  let ?h = "int (length d)" and ?w = "int (length (hd d))"
  have "x = 0" if row: "row \<in> set (center_window d)" and x: "x \<in> set row" for row x
  proof -
    from row obtain r where r: "r \<in> set (py_slice d (?h div 2 - 10) (?h div 2 + 10))"
      and rowr: "row = py_slice r (?w div 2 - 10) (?w div 2 + 10)"
      by (auto simp add: center_window_def Let_def)
    from py_slice_elem [OF _ r] obtain i where i: "i < length d" "?h div 2 - 10 \<le> int i"
      "int i < ?h div 2 + 10" "d ! i = r" by auto
    from x rowr have "x \<in> set (py_slice r (?w div 2 - 10) (?w div 2 + 10))" by simp
    from py_slice_elem [OF _ this] obtain j where j: "j < length r" "?w div 2 - 10 \<le> int j"
      "int j < ?w div 2 + 10" "r ! j = x" by auto
    from assms(2) i j show ?thesis
      by (auto simp add: spec_window_zero_def Let_def)
  qed
  with assms(1) show ?thesis by (simp add: chunk_missing_def)
qed

text \<open>
  Claim C8. When the name resolves and the image is read, and the payload is
  \<^verbatim>\<open>None\<close> or a frame (of at least one row) whose centered window of 20 by 20 pixels is
  zero throughout, \<^verbatim>\<open>Process_Image\<close> returns the sentinel and leaves before the loop
  variables exist: no step is called, no timer and no result is made. Every frame
  that holds a window of 20 by 20 pixels has a row; on smaller frames the theorem
  speaks of the part of the window that lies in the frame.
\<close>

theorem missing_chunk_fails_before_steps:
  assumes "resolve_name options0 = Return options"
    and "map_of options ''image_file'' = Some file"
    and "Read_Image file options = ReadNone
         \<or> (\<exists>d. Read_Image file options = ReadArray d \<and> d \<noteq> [] \<and> spec_window_zero d)"
  shows "Process_Image_run self Read_Image options0 = Some (Return Failure, None)"
  using assms
  by (auto simp add: Process_Image_run_def window_zero_chunk_missing)

text \<open>
  The central 20 by 20 pixels of the frame with a zero block of 40 by 40 are zero.
\<close>

lemma hollow_frame_center_zero: "spec_window_zero hollow_frame"
proof -
  have len: "length hollow_frame = 42" "length (hd hollow_frame) = 42"
    by (simp_all add: hollow_frame_def)
  have "hollow_frame ! i ! j = 0" if "11 \<le> i" "i < 31" "11 \<le> j" "j < 31" for i j
  proof -
    from that have "hollow_frame ! i = 1 # replicate 40 0 @ [1]"
      by (auto simp add: hollow_frame_def nth_Cons' nth_append)
    with that show ?thesis
      by (auto simp add: nth_Cons' nth_append)
  qed
  then show ?thesis
    unfolding spec_window_zero_def Let_def len by auto
qed

text \<open>
  Claim C8 on the frame with the zero block of 40 by 40 at its center, and on a reader
  that returns \<^verbatim>\<open>None\<close>.
\<close>

theorem missing_chunk_fails_before_steps_witness:
  "spec_window_zero hollow_frame
   \<and> Process_Image_run branching_pipeline read_hollow one_image = Some (Return Failure, None)
   \<and> Process_Image_run branching_pipeline read_none one_image = Some (Return Failure, None)"
proof -
  let ?opts = "[(''image_file'', VStr ''path/to/img.fits''), (''name'', VStr ''/img'')]"
  have h1: "resolve_name one_image = Return ?opts" by code_simp
  have h2: "map_of ?opts ''image_file'' = Some (VStr ''path/to/img.fits'')" by simp
  have ne: "hollow_frame \<noteq> []" by (simp add: hollow_frame_def)
  have h3: "read_hollow (VStr ''path/to/img.fits'') ?opts = ReadNone
            \<or> (\<exists>d. read_hollow (VStr ''path/to/img.fits'') ?opts = ReadArray d
                   \<and> d \<noteq> [] \<and> spec_window_zero d)"
    using hollow_frame_center_zero ne by (simp add: read_hollow_def)
  have h3': "read_none (VStr ''path/to/img.fits'') ?opts = ReadNone
            \<or> (\<exists>d. read_none (VStr ''path/to/img.fits'') ?opts = ReadArray d
                   \<and> d \<noteq> [] \<and> spec_window_zero d)"
    by (simp add: read_none_def)
  from missing_chunk_fails_before_steps [where Read_Image = read_hollow, OF h1 h2 h3, of branching_pipeline]
    missing_chunk_fails_before_steps [where Read_Image = read_none, OF h1 h2 h3', of branching_pipeline]
    hollow_frame_center_zero
  show ?thesis by simp
qed

section \<open>The batch runner: aggregation\<close>

text \<open>
  The dictionaries of the aggregation, read through \<open>stored\<close> and \<open>entry_values\<close>.
\<close>

lemma stored_update: "stored (AList.update k v d) X = (if X = k then v else stored d X)"
  by (simp add: stored_def update_conv')

lemma stored_map_entry:
  "stored (AList.map_entry k f d) X
     = (if X = k \<and> k \<in> fst ` set d then f (stored d X) else stored d X)"
  by (auto simp add: stored_def map_of_map_entry map_of_eq_None_iff split: option.splits
        dest: map_of_SomeD intro: rev_image_eqI)

lemma stored_absent: "X \<notin> fst ` set d \<Longrightarrow> stored d X = 0"
  by (simp add: stored_def map_of_eq_None_iff [symmetric])

lemma entry_values_Cons:
  "entry_values X ((s, v) # r) = (if s = X then v # entry_values X r else entry_values X r)"
  by (simp add: entry_values_def)

lemma entry_values_empty_iff: "entry_values X r = [] \<longleftrightarrow> X \<notin> fst ` set r"
  by (induction r) (auto simp add: entry_values_def)

lemma entry_values_distinct:
  "distinct (map fst t) \<Longrightarrow>
     entry_values X t = (case map_of t X of None \<Rightarrow> [] | Some v \<Rightarrow> [v])"
proof (induction t)
  case Nil
  then show ?case by (simp add: entry_values_def)
next
  case (Cons kv t)
  obtain s v where kv: "kv = (s, v)" by (cases kv)
  show ?case
  proof (cases "s = X")
    case True
    with Cons.prems kv have "X \<notin> fst ` set t" by auto
    then have "entry_values X t = []" by (simp add: entry_values_empty_iff)
    with True kv show ?thesis by (simp add: entry_values_Cons)
  next
    case False
    with Cons kv show ?thesis by (simp add: entry_values_Cons)
  qed
qed

text \<open>
  The inner loop over the keys of one success. The two dictionaries keep the same keys,
  so \<^verbatim>\<open>counts[s] += 1.\<close> never misses its key; each total grows by the values the
  success holds for the key and each count by their number.
\<close>

lemma add_timing_sums:
  assumes "fst ` set totals = fst ` set counts"
  shows "\<exists>totals' counts'. add_timing r (totals, counts) = Return (totals', counts')
           \<and> fst ` set totals' = fst ` set counts'
           \<and> fst ` set totals' = fst ` set totals \<union> fst ` set r
           \<and> (distinct (map fst totals) \<longrightarrow> distinct (map fst totals'))
           \<and> (\<forall>X. stored totals' X = stored totals X + sum_list (entry_values X r))
           \<and> (\<forall>X. stored counts' X = stored counts X + of_nat (length (entry_values X r)))"
  using assms
proof (induction r arbitrary: totals counts)
  case Nil
  then show ?case by (simp add: entry_values_def)
next
  case (Cons kv r)
  obtain s v where kv: "kv = (s, v)" by (cases kv)
  show ?case
  proof (cases "s \<in> fst ` set totals")
    case True
    let ?t = "AList.map_entry s (\<lambda>x. x + v) totals"
    let ?c = "AList.map_entry s (\<lambda>x. x + 1) counts"
    from True Cons.prems have inc: "s \<in> fst ` set counts" by simp
    have step: "add_timing (kv # r) (totals, counts) = add_timing r (?t, ?c)"
      using True inc kv by (simp add: dict_add_def)
    have sync: "fst ` set ?t = fst ` set ?c"
      using Cons.prems by (simp add: dom_map_entry)
    from Cons.IH [OF sync] obtain totals' counts' where
      ih: "(add_timing r (?t, ?c) = Return (totals', counts')) \<and>
        (fst ` set totals' = fst ` set counts') \<and>
        (fst ` set totals' = fst ` set ?t \<union> fst ` set r) \<and>
        (distinct (map fst ?t) \<longrightarrow> distinct (map fst totals')) \<and>
        (\<forall>X. stored totals' X = stored ?t X + sum_list (entry_values X r)) \<and>
        (\<forall>X. stored counts' X = stored ?c X + of_nat (length (entry_values X r)))"
      by (elim exE) (erule that)
    note r = ih [THEN conjunct1]
    note k = ih [THEN conjunct2, THEN conjunct1] ih [THEN conjunct2, THEN conjunct2, THEN conjunct1]
    note d = ih [THEN conjunct2, THEN conjunct2, THEN conjunct2, THEN conjunct1]
    note st = ih [THEN conjunct2, THEN conjunct2, THEN conjunct2, THEN conjunct2, THEN conjunct1]
    note sc = ih [THEN conjunct2, THEN conjunct2, THEN conjunct2, THEN conjunct2, THEN conjunct2]
    show ?thesis
    proof (intro exI conjI)
      show "add_timing (kv # r) (totals, counts) = Return (totals', counts')"
        using step r by simp
      show "fst ` set totals' = fst ` set counts'"
        by (rule k(1))
      have "fst ` set totals' = fst ` set totals \<union> fst ` set r"
        using k(2) by (simp add: dom_map_entry)
      moreover have "fst ` set (kv # r) = insert s (fst ` set r)"
        using kv by simp
      ultimately show "fst ` set totals' = fst ` set totals \<union> fst ` set (kv # r)"
        using True by (simp add: insert_absorb)
      show "distinct (map fst totals) \<longrightarrow> distinct (map fst totals')"
        using d by (simp add: distinct_map_entry)
      show "\<forall>X. stored totals' X = stored totals X + sum_list (entry_values X (kv # r))"
        using st True kv by (simp add: stored_map_entry entry_values_Cons)
      show "\<forall>X. stored counts' X
               = stored counts X + of_nat (length (entry_values X (kv # r)))"
        using sc inc kv by (simp add: stored_map_entry entry_values_Cons)
    qed
  next
    case False
    let ?t = "AList.update s v totals"
    let ?c = "AList.update s 1 counts"
    from False Cons.prems have ninc: "s \<notin> fst ` set counts" by simp
    have step: "add_timing (kv # r) (totals, counts) = add_timing r (?t, ?c)"
      using False kv by simp
    have sync: "fst ` set ?t = fst ` set ?c"
      using Cons.prems by (simp add: dom_update)
    from Cons.IH [OF sync] obtain totals' counts' where
      ih: "(add_timing r (?t, ?c) = Return (totals', counts')) \<and>
        (fst ` set totals' = fst ` set counts') \<and>
        (fst ` set totals' = fst ` set ?t \<union> fst ` set r) \<and>
        (distinct (map fst ?t) \<longrightarrow> distinct (map fst totals')) \<and>
        (\<forall>X. stored totals' X = stored ?t X + sum_list (entry_values X r)) \<and>
        (\<forall>X. stored counts' X = stored ?c X + of_nat (length (entry_values X r)))"
      by (elim exE) (erule that)
    note r = ih [THEN conjunct1]
    note k = ih [THEN conjunct2, THEN conjunct1] ih [THEN conjunct2, THEN conjunct2, THEN conjunct1]
    note d = ih [THEN conjunct2, THEN conjunct2, THEN conjunct2, THEN conjunct1]
    note st = ih [THEN conjunct2, THEN conjunct2, THEN conjunct2, THEN conjunct2, THEN conjunct1]
    note sc = ih [THEN conjunct2, THEN conjunct2, THEN conjunct2, THEN conjunct2, THEN conjunct2]
    show ?thesis
    proof (intro exI conjI)
      show "add_timing (kv # r) (totals, counts) = Return (totals', counts')"
        using step r by simp
      show "fst ` set totals' = fst ` set counts'"
        by (rule k(1))
      show "fst ` set totals' = fst ` set totals \<union> fst ` set (kv # r)"
        using k(2) kv by (simp add: dom_update)
      show "distinct (map fst totals) \<longrightarrow> distinct (map fst totals')"
        using d by (simp add: distinct_update)
      show "\<forall>X. stored totals' X = stored totals X + sum_list (entry_values X (kv # r))"
        using st False kv by (simp add: stored_update entry_values_Cons stored_absent)
      show "\<forall>X. stored counts' X
               = stored counts X + of_nat (length (entry_values X (kv # r)))"
        using sc ninc kv by (simp add: stored_update entry_values_Cons stored_absent)
    qed
  qed
qed

text \<open>
  The outer loop over the results: failures are skipped, successes added.
\<close>

lemma accumulate_sums:
  assumes "fst ` set totals = fst ` set counts"
  shows "\<exists>totals' counts'. accumulate res (totals, counts) = Return (totals', counts')
           \<and> fst ` set totals' = fst ` set counts'
           \<and> (\<forall>X. X \<in> fst ` set totals' \<longleftrightarrow>
                    X \<in> fst ` set totals \<or> success_values X res \<noteq> [])
           \<and> (distinct (map fst totals) \<longrightarrow> distinct (map fst totals'))
           \<and> (\<forall>X. stored totals' X = stored totals X + sum_list (success_values X res))
           \<and> (\<forall>X. stored counts' X = stored counts X + of_nat (length (success_values X res)))"
  using assms
proof (induction res arbitrary: totals counts)
  case Nil
  then show ?case by (simp add: success_values_def)
next
  case (Cons r res)
  show ?case
  proof (cases r)
    case Failure
    with Cons.IH [OF Cons.prems] show ?thesis by (simp add: success_values_def)
  next
    case (Success t)
    from add_timing_sums [OF Cons.prems, of t] obtain t1 c1 where
      ih: "(add_timing t (totals, counts) = Return (t1, c1)) \<and>
        (fst ` set t1 = fst ` set c1) \<and>
        (fst ` set t1 = fst ` set totals \<union> fst ` set t) \<and>
        (distinct (map fst totals) \<longrightarrow> distinct (map fst t1)) \<and>
        (\<forall>X. stored t1 X = stored totals X + sum_list (entry_values X t)) \<and>
        (\<forall>X. stored c1 X = stored counts X + of_nat (length (entry_values X t)))"
      by (elim exE) (erule that)
    note a = ih [THEN conjunct1]
    note k1 = ih [THEN conjunct2, THEN conjunct1] ih [THEN conjunct2, THEN conjunct2, THEN conjunct1]
    note d1 = ih [THEN conjunct2, THEN conjunct2, THEN conjunct2, THEN conjunct1]
    note st1 = ih [THEN conjunct2, THEN conjunct2, THEN conjunct2, THEN conjunct2, THEN conjunct1]
    note sc1 = ih [THEN conjunct2, THEN conjunct2, THEN conjunct2, THEN conjunct2, THEN conjunct2]
    from Cons.IH [OF k1(1)] obtain totals' counts' where
      ih: "(accumulate res (t1, c1) = Return (totals', counts')) \<and>
        (fst ` set totals' = fst ` set counts') \<and>
        (\<forall>X. X \<in> fst ` set totals' \<longleftrightarrow> X \<in> fst ` set t1 \<or> success_values X res \<noteq> []) \<and>
        (distinct (map fst t1) \<longrightarrow> distinct (map fst totals')) \<and>
        (\<forall>X. stored totals' X = stored t1 X + sum_list (success_values X res)) \<and>
        (\<forall>X. stored counts' X = stored c1 X + of_nat (length (success_values X res)))"
      by (elim exE) (erule that)
    note r = ih [THEN conjunct1]
    note k = ih [THEN conjunct2, THEN conjunct1] ih [THEN conjunct2, THEN conjunct2, THEN conjunct1]
    note d = ih [THEN conjunct2, THEN conjunct2, THEN conjunct2, THEN conjunct1]
    note st = ih [THEN conjunct2, THEN conjunct2, THEN conjunct2, THEN conjunct2, THEN conjunct1]
    note sc = ih [THEN conjunct2, THEN conjunct2, THEN conjunct2, THEN conjunct2, THEN conjunct2]
    have sv: "success_values X (r # res) = entry_values X t @ success_values X res" for X
      using Success by (simp add: success_values_def)
    show ?thesis
    proof (intro exI conjI)
      show "accumulate (r # res) (totals, counts) = Return (totals', counts')"
        using Success a r by simp
      show "fst ` set totals' = fst ` set counts'"
        by (rule k(1))
      show "\<forall>X. X \<in> fst ` set totals' \<longleftrightarrow>
                 X \<in> fst ` set totals \<or> success_values X (r # res) \<noteq> []"
        using k(2) k1(2) by (simp add: sv entry_values_empty_iff)
      show "distinct (map fst totals) \<longrightarrow> distinct (map fst totals')"
        using d d1 by simp
      show "\<forall>X. stored totals' X = stored totals X + sum_list (success_values X (r # res))"
        using st st1 by (simp add: sv)
      show "\<forall>X. stored counts' X
               = stored counts X + of_nat (length (success_values X (r # res)))"
        using sc sc1 by (simp add: sv)
    qed
  qed
qed

text \<open>
  The division goes through when every key of the totals has a count other than 0.
\<close>

lemma means_divides:
  assumes "\<forall>s \<in> fst ` set totals. s \<in> fst ` set counts \<and> stored counts s \<noteq> 0"
  shows "means totals counts = Some (map (\<lambda>(s, t). (s, t / stored counts s)) totals)"
  using assms
proof (induction totals)
  case Nil
  then show ?case by simp
next
  case (Cons st totals)
  obtain s t where st: "st = (s, t)" by (cases st)
  from Cons.prems st have "s \<in> fst ` set counts" "stored counts s \<noteq> 0" by auto
  then obtain c where c: "map_of counts s = Some c" "c \<noteq> 0" "stored counts s = c"
    by (auto simp add: stored_def map_of_eq_None_iff [symmetric] split: option.splits)
  from Cons have "means totals counts = Some (map (\<lambda>(s, t). (s, t / stored counts s)) totals)"
    by simp
  with st c show ?case by (simp add: divide_by_def)
qed

text \<open>
  A success that comes from \<^verbatim>\<open>Process_Image\<close> is a dictionary, with distinct keys; then
  the values it holds for a key are the one value looked up, or none.
\<close>

lemma success_values_spec:
  assumes "\<forall>t. Success t \<in> set res \<longrightarrow> distinct (map fst t)"
  shows "success_values X res = spec_times X res"
  using assms
proof (induction res)
  case Nil
  then show ?case by (simp add: success_values_def spec_times_def)
next
  case (Cons r res)
  then have ih: "success_values X res = spec_times X res" by simp
  show ?case
  proof (cases r)
    case Failure
    with ih show ?thesis by (simp add: success_values_def spec_times_def)
  next
    case (Success t)
    with Cons.prems have "distinct (map fst t)" by simp
    from entry_values_distinct [OF this, of X] Success ih show ?thesis
      by (simp add: success_values_def spec_times_def)
  qed
qed

text \<open>
  The report on a list of results: never an exception; a line \<open>LogMean X m\<close> exactly
  when \<open>m\<close> is the mean of the times recorded for \<open>X\<close>; no list returned exactly when
  no success has any entry.
\<close>

lemma report_means:
  assumes dist: "\<forall>t. Success t \<in> set res \<longrightarrow> distinct (map fst t)"
  shows "\<exists>b. report res = Return b
           \<and> (\<forall>X m. LogMean X m \<in> set (logged b) \<longleftrightarrow> spec_mean X res = Some m)
           \<and> ((\<forall>X. spec_times X res = []) \<longrightarrow>
                 b = \<lparr>returned = None, logged = [LogFinished, LogAllFailed]\<rparr>)
           \<and> ((\<exists>X. spec_times X res \<noteq> []) \<longrightarrow> returned b = Some res)"
proof -
  have "fst ` set ([] :: timing) = fst ` set ([] :: timing)" by simp
  from accumulate_sums [OF this, of res] obtain totals counts where
    acc: "(accumulate res ([], []) = Return (totals, counts)) \<and>
          (fst ` set totals = fst ` set counts) \<and>
          (\<forall>X. X \<in> fst ` set totals \<longleftrightarrow>
                 X \<in> fst ` set ([] :: timing) \<or> success_values X res \<noteq> []) \<and>
          (distinct (map fst ([] :: timing)) \<longrightarrow> distinct (map fst totals)) \<and>
          (\<forall>X. stored totals X = stored [] X + sum_list (success_values X res)) \<and>
          (\<forall>X. stored counts X = stored [] X + of_nat (length (success_values X res)))"
    by (elim exE) (erule that)
  note a = acc [THEN conjunct1]
  note sync = acc [THEN conjunct2, THEN conjunct1]
  have keys: "X \<in> fst ` set totals \<longleftrightarrow> spec_times X res \<noteq> []" for X
    using acc [THEN conjunct2, THEN conjunct2, THEN conjunct1]
    by (simp add: success_values_spec [OF dist])
  have d: "distinct (map fst totals)"
    using acc [THEN conjunct2, THEN conjunct2, THEN conjunct2, THEN conjunct1] by simp
  have st: "stored totals X = sum_list (spec_times X res)" for X
    using acc [THEN conjunct2, THEN conjunct2, THEN conjunct2, THEN conjunct2, THEN conjunct1]
    by (simp add: success_values_spec [OF dist] stored_def)
  have sc: "stored counts X = of_nat (length (spec_times X res))" for X
    using acc [THEN conjunct2, THEN conjunct2, THEN conjunct2, THEN conjunct2, THEN conjunct2]
    by (simp add: success_values_spec [OF dist] stored_def)
  show ?thesis
  proof (cases "totals = []")
    case True
    with keys have none: "spec_times X res = []" for X by simp
    have "report res = Return \<lparr>returned = None, logged = [LogFinished, LogAllFailed]\<rparr>"
      using a True by (simp add: report_def)
    with none show ?thesis by (simp add: spec_mean_def)
  next
    case False
    let ?ms = "map (\<lambda>(s, t). (s, t / stored counts s)) totals"
    have "\<forall>s \<in> fst ` set totals. s \<in> fst ` set counts \<and> stored counts s \<noteq> 0"
    proof
      fix s assume s: "s \<in> fst ` set totals"
      then have "spec_times s res \<noteq> []" by (simp add: keys)
      then have "stored counts s \<noteq> 0" by (simp add: sc)
      with s sync show "s \<in> fst ` set counts \<and> stored counts s \<noteq> 0" by simp
    qed
    from means_divides [OF this] have m: "means totals counts = Some ?ms" .
    let ?b = "\<lparr>returned = Some res, logged = LogFinished # map (\<lambda>(s, m). LogMean s m) ?ms\<rparr>"
    have rep: "report res = Return ?b"
      using a False m by (simp add: report_def)
    have some: "\<exists>X. spec_times X res \<noteq> []"
    proof -
      from False obtain s t where "(s, t) \<in> set totals" by (cases totals) auto
      then have "s \<in> fst ` set totals" by (rule rev_image_eqI) simp
      then show ?thesis using keys by auto
    qed
    have mean: "LogMean X m \<in> set (logged ?b) \<longleftrightarrow> spec_mean X res = Some m" for X m
    proof -
      have "LogMean X m \<in> set (logged ?b) \<longleftrightarrow> (\<exists>t. (X, t) \<in> set totals \<and> m = t / stored counts X)"
        by (force simp add: image_iff split_beta)
      also have "\<dots> \<longleftrightarrow> (X \<in> fst ` set totals \<and> m = stored totals X / stored counts X)"
      proof -
        have "(X, t) \<in> set totals \<Longrightarrow> stored totals X = t" for t
          using d by (simp add: stored_def)
        moreover have "X \<in> fst ` set totals \<Longrightarrow> (X, stored totals X) \<in> set totals"
          using d by (auto simp add: stored_def)
        ultimately show ?thesis
          by (metis rev_image_eqI fst_conv)
      qed
      also have "\<dots> \<longleftrightarrow> spec_mean X res = Some m"
        by (auto simp add: keys st sc spec_mean_def Let_def)
      finally show ?thesis .
    qed
    show ?thesis
    proof (intro exI conjI allI impI)
      show "report res = Return ?b" by (rule rep)
      show "LogMean X m \<in> set (logged ?b) \<longleftrightarrow> spec_mean X res = Some m" for X m
        by (rule mean)
      show "?b = \<lparr>returned = None, logged = [LogFinished, LogAllFailed]\<rparr>"
        if "\<forall>X. spec_times X res = []"
        using that some by simp
      show "returned ?b = Some res" by simp
    qed
  qed
qed

text \<open>
  The jobs return the list \<open>rs\<close> exactly when each job returns its entry of \<open>rs\<close>.
\<close>

lemma run_jobs_all2:
  "run_jobs f js = Some (Return rs) \<longleftrightarrow> list_all2 (\<lambda>j r. f j = Some (Return r)) js rs"
proof (induction js arbitrary: rs)
  case Nil
  then show ?case by auto
next
  case (Cons j js)
  show ?case
  proof (cases rs)
    case Nil
    then show ?thesis by (simp split: option.splits py.splits)
  next
    case (Cons r rs')
    with Cons.IH [of rs'] show ?thesis
      by (auto split: option.splits py.splits)
  qed
qed

lemma Process_Image_distinct:
  assumes "Process_Image self Read_Image options0 = Some (Return (Success t))"
  shows "distinct (map fst t)"
proof -
  from assms obtain eo where
    "Process_Image_run self Read_Image options0 = Some (Return (Success t), eo)"
    by (auto simp add: Process_Image_def)
  then obtain opts d e where r: "run self opts (init_engine d) = Some (Return (Success t), e)"
    by (auto simp add: Process_Image_run_def
          split: py.splits option.splits read_result.splits bool.splits)
  have "timers_match_calls (init_engine d)"
    by (simp add: timers_match_calls_def init_engine_def)
  with run_success_match [OF r] have "timers_match_calls e" and "t = timers e"
    by simp_all
  then show ?thesis
    unfolding timers_match_calls_def by (elim conjE) (simp only:)
qed

lemma run_jobs_distinct:
  assumes "run_jobs (Process_Image self Read_Image) jobs = Some (Return res)"
  shows "\<forall>t. Success t \<in> set res \<longrightarrow> distinct (map fst t)"
proof (intro allI impI)
  fix t assume "Success t \<in> set res"
  then obtain i where i: "i < length res" "res ! i = Success t"
    by (auto simp add: in_set_conv_nth)
  from assms have "list_all2 (\<lambda>j r. Process_Image self Read_Image j = Some (Return r)) jobs res"
    by (simp add: run_jobs_all2)
  with i have "Process_Image self Read_Image (jobs ! i) = Some (Return (Success t))"
    by (auto simp add: list_all2_conv_all_nth)
  then show "distinct (map fst t)" by (rule Process_Image_distinct)
qed

lemma spec_times_nonempty_iff:
  "spec_times X res \<noteq> [] \<longleftrightarrow> (\<exists>t. Success t \<in> set res \<and> X \<in> fst ` set t)"
proof (induction res)
  case Nil
  then show ?case by (simp add: spec_times_def)
next
  case (Cons r res)
  then have ih: "spec_times X res \<noteq> [] \<longleftrightarrow> (\<exists>t. Success t \<in> set res \<and> X \<in> fst ` set t)" .
  have c: "spec_times X (r # res)
             = (case r of Failure \<Rightarrow> []
                | Success t \<Rightarrow> (case map_of t X of None \<Rightarrow> [] | Some v \<Rightarrow> [v]))
               @ spec_times X res"
    by (simp add: spec_times_def)
  show ?case
  proof (cases r)
    case Failure
    with c ih show ?thesis by simp
  next
    case (Success t)
    show ?thesis
    proof (cases "map_of t X")
      case None
      then have "X \<notin> fst ` set t" by (simp add: map_of_eq_None_iff)
      with c ih Success None show ?thesis by auto
    next
      case (Some v)
      then have "X \<in> fst ` set t" by (metis map_of_eq_None_iff option.distinct(1))
      with c Success Some show ?thesis by auto
    qed
  qed
qed

lemma Process_List_report:
  assumes "use_options options = Return jobs"
    and "map_of options ''n_procs'' = Some (VNum n)"
    and "run_jobs (Process_Image self Read_Image) jobs = Some (Return res)"
  shows "Process_List self Read_Image options = Some (report res)"
  using assms by (simp add: Process_List_def)

text \<open>
  Claim C7. For a batch whose options broadcast, whose worker count is a number and
  whose jobs all return: \<^verbatim>\<open>Process_List\<close> returns; it logs the mean \<open>m\<close> for the step \<open>X\<close>
  exactly when \<open>m\<close> is the sum of the times recorded for \<open>X\<close>, over the successes that
  have the key \<open>X\<close>, divided by their number (the times being exact rationals); a name
  that no success has as a key gets no mean; and when every job failed, the log holds
  the line that all images failed and no mean at all.
\<close>

theorem aggregate_means:
  assumes "use_options options = Return jobs"
    and "map_of options ''n_procs'' = Some (VNum n)"
    and "run_jobs (Process_Image self Read_Image) jobs = Some (Return res)"
  shows "\<exists>b. Process_List self Read_Image options = Some (Return b)
           \<and> (\<forall>X m. LogMean X m \<in> set (logged b) \<longleftrightarrow> spec_mean X res = Some m)
           \<and> (\<forall>X. (\<forall>t. Success t \<in> set res \<longrightarrow> X \<notin> fst ` set t) \<longrightarrow>
                    (\<forall>m. LogMean X m \<notin> set (logged b)))
           \<and> ((\<forall>r \<in> set res. r = Failure) \<longrightarrow> logged b = [LogFinished, LogAllFailed])"
proof -
  from report_means [OF run_jobs_distinct [OF assms(3)]] obtain b where
    b: "report res = Return b"
    and m: "\<forall>X m. LogMean X m \<in> set (logged b) \<longleftrightarrow> spec_mean X res = Some m"
    and z: "(\<forall>X. spec_times X res = []) \<longrightarrow>
              b = \<lparr>returned = None, logged = [LogFinished, LogAllFailed]\<rparr>"
    by (elim exE conjE) (erule that)
  have absent: "\<forall>m. LogMean X m \<notin> set (logged b)"
    if "\<forall>t. Success t \<in> set res \<longrightarrow> X \<notin> fst ` set t" for X
  proof -
    from that have "spec_times X res = []"
      using spec_times_nonempty_iff [of X res] by auto
    then have "spec_mean X res = None" by (simp add: spec_mean_def)
    with m show ?thesis by simp
  qed
  have failed: "logged b = [LogFinished, LogAllFailed]" if "\<forall>r \<in> set res. r = Failure"
  proof -
    from that have "\<forall>X. spec_times X res = []"
      using spec_times_nonempty_iff [of _ res] by (metis outcome.distinct(1))
    with z show ?thesis by simp
  qed
  from Process_List_report [OF assms] b
  have "Process_List self Read_Image options = Some (Return b)" by simp
  with m absent failed show ?thesis by blast
qed

text \<open>
  Claim C7 on the batch of three images, of which the second fails: the means are taken
  over the two successes, 1 for \<^verbatim>\<open>'background'\<close> (from 1/2 and 3/2) and 3/2 for
  \<^verbatim>\<open>'psf'\<close>.
\<close>

theorem aggregate_means_witness:
  "run_jobs (Process_Image batch_pipeline read_by_file) three_jobs = Some (Return three_outcomes)
   \<and> Process_List batch_pipeline read_by_file three_images
       = Some (Return \<lparr>returned = Some three_outcomes,
             logged = [LogFinished, LogMean ''background'' 1, LogMean ''psf'' (3 / 2)]\<rparr>)
   \<and> spec_mean ''background'' three_outcomes = Some 1
   \<and> spec_mean ''psf'' three_outcomes = Some (3 / 2)"
proof -
  have h1: "use_options three_images = Return three_jobs" by code_simp
  have h2: "map_of three_images ''n_procs'' = Some (VNum 2)" by code_simp
  have h3: "run_jobs (Process_Image batch_pipeline read_by_file) three_jobs
              = Some (Return three_outcomes)" by code_simp
  have pl: "Process_List batch_pipeline read_by_file three_images
       = Some (Return \<lparr>returned = Some three_outcomes,
             logged = [LogFinished, LogMean ''background'' 1, LogMean ''psf'' (3 / 2)]\<rparr>)"
    by code_simp
  let ?log = "[LogFinished, LogMean ''background'' 1, LogMean ''psf'' (3 / 2)]"
  from aggregate_means [OF h1 h2 h3] obtain b where
    b: "Process_List batch_pipeline read_by_file three_images = Some (Return b)"
    and m: "\<forall>X m. LogMean X m \<in> set (logged b) \<longleftrightarrow> spec_mean X three_outcomes = Some m"
    by (elim exE conjE) (erule that)
  from b have "Some (Return \<lparr>returned = Some three_outcomes, logged = ?log\<rparr>) = Some (Return b)"
    unfolding pl .
  then have l: "logged b = ?log"
    by (simp only: option.inject py.inject) auto
  have "LogMean ''background'' 1 \<in> set ?log" and "LogMean ''psf'' (3 / 2) \<in> set ?log"
    by simp_all
  then have "spec_mean ''background'' three_outcomes = Some 1"
    and "spec_mean ''psf'' three_outcomes = Some (3 / 2)"
    unfolding l [symmetric] by (simp_all only: m [rule_format])
  then show ?thesis
    by (intro conjI) (rule h3, rule pl, assumption+)
qed

section \<open>The batch runner: the list returned\<close>

text \<open>
  Claim C1 as stated fails when every job fails: the two jobs of the batch below both
  return the sentinel, the dictionary of totals stays empty, and \<^verbatim>\<open>Process_List\<close> logs
  that all images failed and leaves through the bare \<^verbatim>\<open>return\<close>. Its value is \<^verbatim>\<open>None\<close>,
  not a list of two failures.
\<close>

theorem all_failed_returns_no_list:
  "run_jobs (Process_Image initial_pipeline read_fails)
       [[(''image_file'', VStr ''a.fits''), (''n_procs'', VNum 1)],
        [(''image_file'', VStr ''b.fits''), (''n_procs'', VNum 1)]]
     = Some (Return [Failure, Failure])
   \<and> Process_List initial_pipeline read_fails two_images
     = Some (Return \<lparr>returned = None, logged = [LogFinished, LogAllFailed]\<rparr>)
   \<and> Process_List initial_pipeline read_fails two_images
     \<noteq> Some (Return \<lparr>returned = Some [Failure, Failure],
                        logged = [LogFinished, LogAllFailed]\<rparr>)"
  by code_simp

text \<open>
  The options built for the jobs: one per image, the job at index \<open>i\<close> holding the
  image at index \<open>i\<close>.
\<close>

lemma collect_ReturnD: "collect ps = Return xs \<Longrightarrow> ps = map Return xs"
proof (induction ps arbitrary: xs)
  case Nil
  then show ?case by simp
next
  case (Cons p ps)
  show ?case
  proof (cases p)
    case (Raise x)
    with Cons.prems show ?thesis by simp
  next
    case (Return a)
    with Cons.prems obtain as where c: "collect ps = Return as" and xs: "xs = a # as"
      by (auto split: py.splits)
    from Cons.IH [OF c] xs Return show ?thesis by simp
  qed
qed

lemma tmp_options_lookup:
  assumes "tmp_options i opts = Return job" and "map_of opts k = Some v"
  shows "\<exists>u. pick i v = Return u \<and> map_of job k = Some u"
  using assms
proof (induction opts arbitrary: job)
  case Nil
  then show ?case by simp
next
  case (Cons kv opts)
  obtain k' v' where kv: "kv = (k', v')" by (cases kv)
  from Cons.prems(1) kv obtain u' rest where
    p: "pick i v' = Return u'" and t: "tmp_options i opts = Return rest"
    and j: "job = (k', u') # rest"
    by (auto split: py.splits)
  show ?case
  proof (cases "k' = k")
    case True
    with Cons.prems(2) kv have "v' = v" by simp
    with p j True show ?thesis by simp
  next
    case False
    with Cons.prems(2) kv have "map_of opts k = Some v" by simp
    from Cons.IH [OF t this] j False show ?thesis by simp
  qed
qed

lemma use_options_jobs:
  assumes "use_options options = Return jobs"
  shows "\<exists>files. map_of options ''image_file'' = Some (VList files)
           \<and> length jobs = length files
           \<and> (\<forall>i<length files. map_of (jobs ! i) ''image_file'' = Some (files ! i))"
proof -
  from assms obtain files where f: "map_of options ''image_file'' = Some (VList files)"
    by (auto simp add: use_options_def split: option.splits pyval.splits)
  then have "(''image_file'', VList files) \<in> set options" by (rule map_of_SomeD)
  then have "VList files \<in> set (map snd options)" by force
  moreover have "is_list (VList files)" by (simp add: is_list_def)
  ultimately have "\<not> (\<forall>v \<in> set (map snd options). \<not> is_list v)"
    by blast
  with assms f have "collect (map (\<lambda>i. tmp_options i options) [0 ..< length files]) = Return jobs"
    by (auto simp add: use_options_def split: if_splits)
  then have m: "map (\<lambda>i. tmp_options i options) [0 ..< length files] = map Return jobs"
    by (rule collect_ReturnD)
  from arg_cong [OF m, of length] have len: "length jobs = length files"
    by simp
  have "map_of (jobs ! i) ''image_file'' = Some (files ! i)" if i: "i < length files" for i
  proof -
    from m have "map (\<lambda>i. tmp_options i options) [0 ..< length files] ! i
                   = map Return jobs ! i"
      by (rule arg_cong)
    with i len have "tmp_options i options = Return (jobs ! i)"
      by simp
    from tmp_options_lookup [OF this f] i show ?thesis
      by (auto simp add: pick_def)
  qed
  with f len show ?thesis by simp
qed

text \<open>
  Claim C1, amended. For a batch whose options broadcast and whose worker count is a
  number: there is one job per image, job \<open>i\<close> for image \<open>i\<close>. When every job returns and at
  least one success has a timing entry, \<^verbatim>\<open>Process_List\<close> returns the list of the
  outcomes, as long as the list of images and with the outcome of image \<open>i\<close> at index
  \<open>i\<close>. When every job fails, it returns \<^verbatim>\<open>None\<close> after logging that all images failed.
\<close>

theorem Process_List_outcomes:
  assumes "use_options options = Return jobs"
    and "map_of options ''n_procs'' = Some (VNum n)"
    and "length outs = length jobs"
    and "\<forall>i<length jobs. Process_Image self Read_Image (jobs ! i) = Some (Return (outs ! i))"
  shows "(\<exists>files. map_of options ''image_file'' = Some (VList files)
            \<and> length jobs = length files
            \<and> (\<forall>i<length files. map_of (jobs ! i) ''image_file'' = Some (files ! i)))
         \<and> ((\<exists>t. Success t \<in> set outs \<and> t \<noteq> []) \<longrightarrow>
              (\<exists>b. Process_List self Read_Image options = Some (Return b)
                    \<and> returned b = Some outs))
         \<and> ((\<forall>r \<in> set outs. r = Failure) \<longrightarrow>
              Process_List self Read_Image options
                = Some (Return \<lparr>returned = None, logged = [LogFinished, LogAllFailed]\<rparr>))"
proof -
  from assms(3,4) have "list_all2 (\<lambda>j r. Process_Image self Read_Image j = Some (Return r)) jobs outs"
    by (simp add: list_all2_conv_all_nth)
  then have rj: "run_jobs (Process_Image self Read_Image) jobs = Some (Return outs)"
    by (simp add: run_jobs_all2)
  from Process_List_report [OF assms(1,2) rj]
  have pl: "Process_List self Read_Image options = Some (report outs)" .
  from report_means [OF run_jobs_distinct [OF rj]] obtain b where
    b: "report outs = Return b"
    and z: "(\<forall>X. spec_times X outs = []) \<longrightarrow>
              b = \<lparr>returned = None, logged = [LogFinished, LogAllFailed]\<rparr>"
    and s: "(\<exists>X. spec_times X outs \<noteq> []) \<longrightarrow> returned b = Some outs"
    by (elim exE conjE) (erule that)
  have some: "\<exists>b. Process_List self Read_Image options = Some (Return b) \<and> returned b = Some outs"
    if "\<exists>t. Success t \<in> set outs \<and> t \<noteq> []"
  proof -
    from that obtain t where t: "Success t \<in> set outs" "t \<noteq> []" by (elim exE conjE)
    then obtain X v where "(X, v) \<in> set t" by (cases t) auto
    then have "X \<in> fst ` set t" by (rule rev_image_eqI) simp
    with t(1) have "spec_times X outs \<noteq> []"
      using spec_times_nonempty_iff [of X outs] by auto
    with s have "returned b = Some outs" by auto
    with pl b show ?thesis by simp
  qed
  have none: "Process_List self Read_Image options
                = Some (Return \<lparr>returned = None, logged = [LogFinished, LogAllFailed]\<rparr>)"
    if "\<forall>r \<in> set outs. r = Failure"
  proof -
    from that have "\<forall>X. spec_times X outs = []"
      using spec_times_nonempty_iff [of _ outs] by (metis outcome.distinct(1))
    with z pl b show ?thesis by simp
  qed
  from use_options_jobs [OF assms(1)] some none show ?thesis
    by (intro conjI impI)
qed

text \<open>
  The amended claim C1 on the batch of three images whose second image fails, and on
  the batch of two images that both fail.
\<close>

theorem Process_List_outcomes_witness:
  "use_options three_images = Return three_jobs
   \<and> Process_Image batch_pipeline read_by_file (three_jobs ! 1) = Some (Return Failure)
   \<and> (\<exists>b. Process_List batch_pipeline read_by_file three_images = Some (Return b)
          \<and> returned b = Some three_outcomes)
   \<and> Process_List initial_pipeline read_fails two_images
       = Some (Return \<lparr>returned = None, logged = [LogFinished, LogAllFailed]\<rparr>)"
proof -
  have h1: "use_options three_images = Return three_jobs" by code_simp
  have h2: "map_of three_images ''n_procs'' = Some (VNum 2)" by code_simp
  have h3: "length three_outcomes = length three_jobs" by code_simp
  have j: "Process_Image batch_pipeline read_by_file (three_jobs ! 0) = Some (Return (three_outcomes ! 0))"
    "Process_Image batch_pipeline read_by_file (three_jobs ! 1) = Some (Return (three_outcomes ! 1))"
    "Process_Image batch_pipeline read_by_file (three_jobs ! 2) = Some (Return (three_outcomes ! 2))"
    by code_simp+
  have l: "length three_jobs = 3" by code_simp
  have h4: "\<forall>i<length three_jobs. Process_Image batch_pipeline read_by_file (three_jobs ! i)
              = Some (Return (three_outcomes ! i))"
    unfolding l using j by (auto simp add: less_Suc_eq numeral_3_eq_3 numeral_2_eq_2)
  have s: "\<exists>t. Success t \<in> set three_outcomes \<and> t \<noteq> []"
    by (rule exI [of _ "[(''background'', 1 / 2), (''psf'', 3 / 2)]"])
       (simp add: three_outcomes_def)
  have f1: "Process_Image batch_pipeline read_by_file (three_jobs ! 1) = Some (Return Failure)"
    by code_simp
  let ?jobs2 = "[[(''image_file'', VStr ''a.fits''), (''n_procs'', VNum 1)],
                 [(''image_file'', VStr ''b.fits''), (''n_procs'', VNum 1)]]"
  have g1: "use_options two_images = Return ?jobs2" by code_simp
  have g2: "map_of two_images ''n_procs'' = Some (VNum 1)" by code_simp
  have g3: "length [Failure, Failure] = length ?jobs2" by simp
  have k: "Process_Image initial_pipeline read_fails (?jobs2 ! 0) = Some (Return Failure)"
    "Process_Image initial_pipeline read_fails (?jobs2 ! 1) = Some (Return Failure)"
    by code_simp+
  have g4: "\<forall>i<length ?jobs2. Process_Image initial_pipeline read_fails (?jobs2 ! i)
              = Some (Return ([Failure, Failure] ! i))"
    using k by (simp add: less_Suc_eq)
  have g5: "\<forall>r \<in> set [Failure, Failure]. r = Failure" by simp
  from Process_List_outcomes [OF h1 h2 h3 h4, THEN conjunct2, THEN conjunct1, THEN mp, OF s]
    Process_List_outcomes [OF g1 g2 g3 g4, THEN conjunct2, THEN conjunct2, THEN mp, OF g5]
    h1 f1
  show ?thesis by (intro conjI)
qed

end
